(* ===== verification/Prelude.thy ===== *)
theory Prelude
  imports Main "HOL-Library.Sublist" "HOL-Library.List_Lexorder" "HOL-Library.Char_ord"
begin

text \<open>
  Shared vocabulary of the JavaTree development: the C++ standard-library
  operations the program calls on \<open>std::string\<close> (\<open>find\<close>,
  \<open>find_first_of\<close>, \<open>erase\<close>, \<open>substr\<close>, \<open>std::getline\<close>), the exceptions
  they throw as values of \<open>jt_error\<close>, the character constants the scanners
  test, and the list lemmas the component theories share.  Strings are
  \<open>char list\<close>; indices and sizes are \<open>nat\<close>, with the conversion of a C
  \<open>int\<close> to \<open>size_t\<close> written out modulo \<open>2^64\<close>.
\<close>

named_theorems jt_str \<open>evaluation rules for the modelled std::string operations\<close>

type_synonym addr = nat

text \<open>The two standard exceptions the program can raise (both derive from
  \<open>std::exception\<close>, which the file scanners catch).\<close>

datatype jt_error = OutOfRange | LengthError

abbreviation NL :: char where "NL \<equiv> CHR 0x0A"
abbreviation CR :: char where "CR \<equiv> CHR 0x0D"
abbreviation TAB :: char where "TAB \<equiv> CHR 0x09"
abbreviation DQ :: char where "DQ \<equiv> CHR 0x22"
abbreviation SQ :: char where "SQ \<equiv> CHR 0x27"

text \<open>The conversion of a C \<open>int\<close> to \<open>size_t\<close> on a 64-bit target,
  which wraps a negative value.\<close>

definition size_t_of :: "int \<Rightarrow> nat" where
  "size_t_of i = nat (i mod 2 ^ 64)"

lemma size_t_of_nat [jt_str]: "n < 2 ^ 64 \<Longrightarrow> size_t_of (int n) = n"
  by (simp add: size_t_of_def)

lemma size_t_of_0 [simp]: "size_t_of 0 = 0"
  by (simp add: size_t_of_def)

subsection \<open>std::string::find\<close>

function str_find :: "string \<Rightarrow> string \<Rightarrow> nat \<Rightarrow> nat option" where
  "str_find hay want pos =
     (if length hay < pos + length want then None
      else if take (length want) (drop pos hay) = want then Some pos
      else str_find hay want (Suc pos))"
  by pat_completeness auto
termination
  by (relation "measure (\<lambda>(hay, want, pos). Suc (length hay) - pos)") auto

declare str_find.simps [simp del]

definition occurs_at :: "string \<Rightarrow> string \<Rightarrow> nat \<Rightarrow> bool" where
  "occurs_at want hay i \<longleftrightarrow> i + length want \<le> length hay \<and> take (length want) (drop i hay) = want"

lemma str_find_Some:
  "str_find hay want pos = Some i \<Longrightarrow>
     pos \<le> i \<and> occurs_at want hay i \<and> (\<forall>j. pos \<le> j \<and> j < i \<longrightarrow> \<not> occurs_at want hay j)"
proof (induction hay want pos rule: str_find.induct)
  case (1 hay want pos)
  show ?case
  proof (cases "length hay < pos + length want")
    case True
    with "1.prems" show ?thesis by (simp add: str_find.simps[of hay want pos])
  next
    case False
    show ?thesis
    proof (cases "take (length want) (drop pos hay) = want")
      case True
      with False "1.prems" show ?thesis
        by (auto simp: str_find.simps[of hay want pos] occurs_at_def)
    next
      case nm: False
      with False "1.prems" have "str_find hay want (Suc pos) = Some i"
        by (simp add: str_find.simps[of hay want pos])
      with "1.IH" False nm have ih: "Suc pos \<le> i \<and> occurs_at want hay i \<and>
          (\<forall>j. Suc pos \<le> j \<and> j < i \<longrightarrow> \<not> occurs_at want hay j)"
        by blast
      have "\<not> occurs_at want hay pos" using nm by (simp add: occurs_at_def)
      with ih show ?thesis
        by (metis Suc_leD le_antisym not_less_eq_eq)
    qed
  qed
qed

lemma str_find_None:
  "str_find hay want pos = None \<Longrightarrow> pos \<le> j \<Longrightarrow> \<not> occurs_at want hay j"
proof (induction hay want pos rule: str_find.induct)
  case (1 hay want pos)
  show ?case
  proof (cases "length hay < pos + length want")
    case True
    with "1.prems" show ?thesis by (auto simp: occurs_at_def)
  next
    case False
    with "1.prems" have nm: "take (length want) (drop pos hay) \<noteq> want"
      and rec: "str_find hay want (Suc pos) = None"
      by (auto simp: str_find.simps[of hay want pos] split: if_splits)
    show ?thesis
    proof (cases "j = pos")
      case True
      with nm show ?thesis by (simp add: occurs_at_def)
    next
      case False
      with "1.prems" have "Suc pos \<le> j" by simp
      with "1.IH" False nm rec show ?thesis
        using \<open>\<not> length hay < pos + length want\<close> by blast
    qed
  qed
qed

lemma str_find_bounds:
  "str_find hay want pos = Some i \<Longrightarrow> pos \<le> i \<and> i + length want \<le> length hay"
  using str_find_Some by (auto simp: occurs_at_def)

subsection \<open>std::string::find_first_of\<close>

text \<open>\<open>s.find_first_of(set)\<close>: the least index whose character is in \<open>set\<close>.\<close>

fun find_first_of_from :: "string \<Rightarrow> char list \<Rightarrow> nat \<Rightarrow> nat option" where
  "find_first_of_from [] cs i = None"
| "find_first_of_from (c # s) cs i =
     (if c \<in> set cs then Some i else find_first_of_from s cs (Suc i))"

definition find_first_of :: "string \<Rightarrow> char list \<Rightarrow> nat option" where
  "find_first_of s cs = find_first_of_from s cs 0"

lemma find_first_of_from_Some:
  "find_first_of_from s cs i = Some k \<Longrightarrow>
     i \<le> k \<and> k < i + length s \<and> s ! (k - i) \<in> set cs \<and> (\<forall>j < k - i. s ! j \<notin> set cs)"
proof (induction s arbitrary: i)
  case Nil
  then show ?case by simp
next
  case (Cons c s)
  show ?case
  proof (cases "c \<in> set cs")
    case True
    with Cons.prems show ?thesis by auto
  next
    case False
    with Cons.prems have "find_first_of_from s cs (Suc i) = Some k" by simp
    with Cons.IH have ih: "Suc i \<le> k \<and> k < Suc i + length s \<and> s ! (k - Suc i) \<in> set cs \<and>
        (\<forall>j < k - Suc i. s ! j \<notin> set cs)" by blast
    have "(c # s) ! j \<notin> set cs" if "j < k - i" for j
    proof (cases j)
      case 0
      with False show ?thesis by simp
    next
      case (Suc j')
      with that ih show ?thesis by simp
    qed
    with ih show ?thesis by (simp add: Suc_diff_Suc)
  qed
qed

lemma find_first_of_from_split:
  "find_first_of_from s cs i = Some k \<Longrightarrow>
     \<exists>u c v. s = u @ c # v \<and> set u \<inter> set cs = {} \<and> c \<in> set cs \<and> k = i + length u"
proof (induction s arbitrary: i)
  case Nil
  then show ?case by simp
next
  case (Cons x s)
  show ?case
  proof (cases "x \<in> set cs")
    case True
    with Cons.prems show ?thesis by force
  next
    case False
    with Cons.prems Cons.IH [of "Suc i"] obtain u c v where
      "s = u @ c # v" "set u \<inter> set cs = {}" "c \<in> set cs" "k = Suc i + length u"
      by auto
    with False show ?thesis by (intro exI [of _ "x # u"]) auto
  qed
qed

lemma find_first_of_from_None:
  "find_first_of_from s cs i = None \<longleftrightarrow> set s \<inter> set cs = {}"
  by (induction s arbitrary: i) auto

subsection \<open>std::string::erase and substr\<close>

text \<open>\<open>s.erase(pos, n)\<close> removes \<open>min n (size - pos)\<close> characters at
  \<open>pos\<close> and throws \<open>std::out_of_range\<close> when \<open>pos > size\<close>.\<close>

definition str_erase :: "string \<Rightarrow> nat \<Rightarrow> nat \<Rightarrow> jt_error + string" where
  "str_erase s pos n =
     (if length s < pos then Inl OutOfRange else Inr (take pos s @ drop (pos + n) s))"

text \<open>\<open>s.erase(pos)\<close>: the count defaults to \<open>npos\<close>, which exceeds the
  size of every string, so everything from \<open>pos\<close> on is removed.\<close>

definition str_erase_tail :: "string \<Rightarrow> nat \<Rightarrow> jt_error + string" where
  "str_erase_tail s pos = (if length s < pos then Inl OutOfRange else Inr (take pos s))"

lemma str_erase_tail_ok [jt_str]:
  "pos \<le> length s \<Longrightarrow> str_erase_tail s pos = Inr (take pos s)"
  by (simp add: str_erase_tail_def)

lemma str_erase_tail_subseq:
  "str_erase_tail s pos = Inr s' \<Longrightarrow> subseq s' s"
  by (auto simp: str_erase_tail_def split: if_splits)

lemma str_erase_ok [jt_str]:
  "pos \<le> length s \<Longrightarrow> str_erase s pos n = Inr (take pos s @ drop (pos + n) s)"
  by (simp add: str_erase_def)

lemma str_erase_length:
  "str_erase s pos n = Inr s' \<Longrightarrow> pos \<le> length s' \<and> length s' \<le> length s"
  by (auto simp: str_erase_def split: if_splits)

lemma subseq_take_drop: "i \<le> j \<Longrightarrow> subseq (take i s @ drop j s) s"
proof -
  assume "i \<le> j"
  have "subseq (drop j s) (drop i s)"
    using \<open>i \<le> j\<close> by (metis drop_drop le_add_diff_inverse2 suffix_drop suffix_imp_subseq)
  then have "subseq (take i s @ drop j s) (take i s @ drop i s)"
    by (simp only: subseq_append')
  then show ?thesis by simp
qed

lemma str_erase_subseq:
  "str_erase s pos n = Inr s' \<Longrightarrow> subseq s' s"
  by (auto simp: str_erase_def subseq_take_drop split: if_splits)

text \<open>\<open>s.substr(pos, n)\<close>: out of range when \<open>pos > size\<close>.\<close>

definition substr :: "string \<Rightarrow> nat \<Rightarrow> nat \<Rightarrow> jt_error + string" where
  "substr s pos n = (if length s < pos then Inl OutOfRange else Inr (take n (drop pos s)))"

subsection \<open>std::getline\<close>

text \<open>\<open>std::getline(in, line)\<close> extracts characters up to the next newline
  and discards it.  The stream stays \<open>good()\<close> only when a newline was found:
  at end of input the characters read so far are left in \<open>line\<close> and the
  stream reports failure (eofbit, and failbit when nothing was read).  The
  result is the line, the rest of the input and the \<open>good()\<close> flag.\<close>

definition std_getline :: "string \<Rightarrow> string \<times> string \<times> bool" where
  "std_getline inp =
     (if NL \<in> set inp
      then (takeWhile (\<lambda>c. c \<noteq> NL) inp, tl (dropWhile (\<lambda>c. c \<noteq> NL) inp), True)
      else (inp, [], False))"

lemma std_getline_good_shorter:
  "std_getline inp = (l, rest, True) \<Longrightarrow> length rest < length inp"
proof -
  assume g: "std_getline inp = (l, rest, True)"
  then have nl: "NL \<in> set inp" and r: "rest = tl (dropWhile (\<lambda>c. c \<noteq> NL) inp)"
    by (auto simp: std_getline_def split: if_splits)
  from nl have "dropWhile (\<lambda>c. c \<noteq> NL) inp \<noteq> []" by (simp add: dropWhile_eq_Nil_conv)
  moreover have "length (dropWhile (\<lambda>c. c \<noteq> NL) inp) \<le> length inp"
    by (rule length_dropWhile_le)
  ultimately show ?thesis using r by (cases "dropWhile (\<lambda>c. c \<noteq> NL) inp") auto
qed

lemma std_getline_append [jt_str]:
  "NL \<notin> set l \<Longrightarrow> std_getline (l @ NL # rest) = (l, rest, True)"
  by (simp add: std_getline_def takeWhile_append dropWhile_append)

lemma std_getline_no_nl [jt_str]:
  "NL \<notin> set inp \<Longrightarrow> std_getline inp = (inp, [], False)"
  by (simp add: std_getline_def)

end
