(* ===== verification/Scrubber.thy ===== *)
theory Scrubber
  imports Prelude
begin

text \<open>
  The line scrubber \<open>JavaReader::getJavaline\<close> (src/javatree/javeReader.cpp,
  declared in javaReader.h).  Each call reads one line with \<open>std::getline\<close>,
  collects the positions of the five markers \<open>//\<close>, \<open>/*\<close>, \<open>*/\<close>,
  \<open>"\<close> and \<open>'\<close> (\<open>CommentItem::findAll\<close>, then \<open>CommentItem::sort\<close>),
  runs a small state machine over them, and erases the recorded spans in
  reverse order.  The block-comment flag and the span list are members of the
  reader and survive from one call to the next; the start columns and the two
  quote flags are locals of the call.  Erasing a span out of range throws
  \<open>std::out_of_range\<close>, modelled as \<open>Inl OutOfRange\<close>.
\<close>

datatype com_type = LineComment | BlockCommentOpen | BlockCommentClose | Quote2 | Quote1

record comment_item =
  idx :: nat
  comType :: com_type

subsection \<open>Finding the markers\<close>

text \<open>\<open>CommentItem::findAll\<close>: starting from \<open>foundIdx = -1\<close> (as
  \<open>size_t\<close>, so that \<open>foundIdx + 1\<close> wraps to 0), every occurrence of
  \<open>want\<close>, overlapping ones included, is appended to \<open>found\<close>.\<close>

function find_all_from :: "string \<Rightarrow> string \<Rightarrow> com_type \<Rightarrow> nat \<Rightarrow> comment_item list" where
  "find_all_from hay want t pos =
     (case str_find hay want pos of
        None \<Rightarrow> []
      | Some i \<Rightarrow> \<lparr>idx = i, comType = t\<rparr> # find_all_from hay want t (Suc i))"
  by pat_completeness auto
termination
proof (relation "measure (\<lambda>(hay, want, t, pos). Suc (length hay) - pos)")
  fix hay want t pos i
  assume "str_find hay want pos = Some i"
  then have "pos \<le> i \<and> i + length want \<le> length hay" by (rule str_find_bounds)
  then show "((hay, want, t, Suc i), hay, want, t, pos)
               \<in> measure (\<lambda>(hay, want, t, pos). Suc (length hay) - pos)"
    by auto
qed simp

definition findAll :: "comment_item list \<Rightarrow> string \<Rightarrow> string \<Rightarrow> com_type \<Rightarrow> comment_item list" where
  "findAll found hay want t = found @ find_all_from hay want t 0"

text \<open>The five searches of \<open>getJavaline\<close>, then \<open>std::sort\<close> by column.
  \<open>std::sort\<close> is not stable, but no two markers share a column
  (\<open>line_markers_exact\<close> below), so the sorted order is unique and
  \<open>sort_key\<close> denotes it.\<close>

definition line_markers :: "string \<Rightarrow> comment_item list" where
  "line_markers line =
     sort_key idx
       (findAll (findAll (findAll (findAll (findAll [] line ''//'' LineComment)
          line ''/*'' BlockCommentOpen) line ''*/'' BlockCommentClose)
          line [DQ] Quote2) line [SQ] Quote1)"

subsection \<open>The reader and its scan state\<close>

text \<open>Members of \<open>JavaReader\<close> that outlive a call (\<open>my_comments\<close> is
  cleared before each use and is a local here).\<close>

record java_reader =
  isCommentOpen :: bool
  removeList :: "(int \<times> int) list"
  lineNum :: nat

text \<open>The locals of one call, on top of the members.\<close>

record scan_state = java_reader +
  blockStart :: int
  quote1Start :: int
  quote2Start :: int
  quote1Open :: bool
  quote2Open :: bool

definition new_reader :: java_reader where
  "new_reader = \<lparr>isCommentOpen = False, removeList = [], lineNum = 0\<rparr>"

definition scan_start :: "java_reader \<Rightarrow> scan_state" where
  "scan_start rd =
     \<lparr>isCommentOpen = isCommentOpen rd, removeList = removeList rd, lineNum = lineNum rd,
      blockStart = 0, quote1Start = 0, quote2Start = 0, quote1Open = False, quote2Open = False\<rparr>"

definition reader_of :: "scan_state \<Rightarrow> java_reader" where
  "reader_of st = \<lparr>isCommentOpen = isCommentOpen st, removeList = removeList st, lineNum = lineNum st\<rparr>"

text \<open>One iteration of the \<open>for\<close> loop over the sorted markers.  \<open>Inl\<close> is
  the early \<open>return\<close> at a line comment, with its column.\<close>

definition scan_step :: "scan_state \<Rightarrow> comment_item \<Rightarrow> (nat \<times> scan_state) + scan_state" where
  "scan_step st it =
     (if isCommentOpen st then
        (if comType it = BlockCommentClose
         then Inr (st\<lparr>removeList := removeList st @ [(blockStart st, int (idx it) - blockStart st + 2)],
                     blockStart := -1, isCommentOpen := False\<rparr>)
         else Inr st)
      else if quote2Open st then
        (if comType it = Quote2
         then Inr (st\<lparr>removeList := removeList st @ [(quote2Start st, int (idx it) - quote2Start st + 1)],
                     quote2Start := -1, quote2Open := False\<rparr>)
         else Inr st)
      else if quote1Open st then
        (if comType it = Quote1
         then Inr (st\<lparr>removeList := removeList st @ [(quote1Start st, int (idx it) - quote1Start st + 1)],
                     quote1Start := -1, quote1Open := False\<rparr>)
         else Inr st)
      else
        (case comType it of
           LineComment \<Rightarrow> Inl (idx it, st)
         | BlockCommentOpen \<Rightarrow> Inr (st\<lparr>isCommentOpen := True, blockStart := int (idx it)\<rparr>)
         | BlockCommentClose \<Rightarrow> Inr st
         | Quote2 \<Rightarrow> Inr (st\<lparr>quote2Start := int (idx it), quote2Open := True\<rparr>)
         | Quote1 \<Rightarrow> Inr (st\<lparr>quote1Start := int (idx it), quote1Open := True\<rparr>)))"

fun scan_items :: "scan_state \<Rightarrow> comment_item list \<Rightarrow> (nat \<times> scan_state) + scan_state" where
  "scan_items st [] = Inr st"
| "scan_items st (it # its) =
     (case scan_step st it of Inl r \<Rightarrow> Inl r | Inr st' \<Rightarrow> scan_items st' its)"

text \<open>The closing \<open>for\<close> loop walks \<open>my_removeList\<close> with a reverse
  iterator: the last span is erased first.\<close>

fun erase_spans :: "string \<Rightarrow> (int \<times> int) list \<Rightarrow> jt_error + string" where
  "erase_spans s [] = Inr s"
| "erase_spans s (sp # sps) =
     (case erase_spans s sps of
        Inl e \<Rightarrow> Inl e
      | Inr s' \<Rightarrow> str_erase s' (size_t_of (fst sp)) (size_t_of (snd sp)))"

text \<open>The code after the \<open>if (getline(...).good())\<close> block: truncation at
  an open block comment, then the span erasures.\<close>

definition finish_line :: "scan_state \<Rightarrow> string \<Rightarrow> jt_error + string" where
  "finish_line st line =
     (case (if isCommentOpen st then str_erase_tail line (size_t_of (blockStart st)) else Inr line) of
        Inl e \<Rightarrow> Inl e
      | Inr l \<Rightarrow> erase_spans l (removeList st))"

text \<open>The body of \<open>getJavaline(in, line)\<close> after the read: \<open>line\<close> is
  what \<open>std::getline\<close> left in the string and \<open>good\<close> the stream's
  \<open>good()\<close>.  The result is the new reader, the scrubbed line, \<open>good\<close> and
  the unread input.\<close>

definition javaline_process ::
  "java_reader \<Rightarrow> string \<Rightarrow> bool \<Rightarrow> string \<Rightarrow> jt_error + (java_reader \<times> string \<times> bool \<times> string)" where
  "javaline_process rd line good rest =
     (if good then
        (case scan_items (scan_start (rd\<lparr>lineNum := Suc (lineNum rd), removeList := []\<rparr>))
                (line_markers line) of
           Inl (i, st) \<Rightarrow>
             (case str_erase_tail line i of
                Inl e \<Rightarrow> Inl e
              | Inr l \<Rightarrow> Inr (reader_of st, l, True, rest))
         | Inr st \<Rightarrow>
             (case finish_line st line of
                Inl e \<Rightarrow> Inl e
              | Inr l \<Rightarrow> Inr (reader_of st, l, True, rest)))
      else
        (case finish_line (scan_start rd) line of
           Inl e \<Rightarrow> Inl e
         | Inr l \<Rightarrow> Inr (rd, l, False, rest)))"

text \<open>\<open>getJavaline(in, line)\<close> on a stream whose unread input is \<open>inp\<close>.\<close>

definition getJavaline :: "java_reader \<Rightarrow> string \<Rightarrow> jt_error + (java_reader \<times> string \<times> bool \<times> string)" where
  "getJavaline rd inp = (case std_getline inp of (line, rest, good) \<Rightarrow> javaline_process rd line good rest)"

subsection \<open>A reference scan of the markers\<close>

text \<open>The marker starting at the head of a string, if any, and the list of
  all markers of a line by a single left-to-right pass.\<close>

definition marker_at :: "string \<Rightarrow> com_type option" where
  "marker_at s =
     (if take 2 s = ''//'' then Some LineComment
      else if take 2 s = ''/*'' then Some BlockCommentOpen
      else if take 2 s = ''*/'' then Some BlockCommentClose
      else if take 1 s = [DQ] then Some Quote2
      else if take 1 s = [SQ] then Some Quote1
      else None)"

fun scan_markers :: "string \<Rightarrow> nat \<Rightarrow> comment_item list" where
  "scan_markers [] i = []"
| "scan_markers (c # cs) i =
     (case marker_at (c # cs) of None \<Rightarrow> [] | Some t \<Rightarrow> [\<lparr>idx = i, comType = t\<rparr>])
     @ scan_markers cs (Suc i)"

definition marker_text :: "com_type \<Rightarrow> string" where
  "marker_text t = (case t of
     LineComment \<Rightarrow> ''//'' | BlockCommentOpen \<Rightarrow> ''/*'' | BlockCommentClose \<Rightarrow> ''*/''
   | Quote2 \<Rightarrow> [DQ] | Quote1 \<Rightarrow> [SQ])"

text \<open>Text free of the four marker characters.\<close>

definition plain :: "string \<Rightarrow> bool" where
  "plain s \<longleftrightarrow> set s \<inter> {CHR ''/'', CHR ''*'', DQ, SQ} = {}"

text \<open>What the scan keeps true between markers: the spans are ordered, start
  inside the line, and an open comment or literal starts after all of them.\<close>

definition scan_inv :: "nat \<Rightarrow> scan_state \<Rightarrow> bool" where
  "scan_inv lim st \<longleftrightarrow>
     sorted (map fst (removeList st)) \<and>
     (\<forall>sp\<in>set (removeList st). 0 \<le> fst sp \<and> fst sp \<le> int lim) \<and>
     (isCommentOpen st \<longrightarrow> \<not> quote1Open st \<and> \<not> quote2Open st \<and> 0 \<le> blockStart st \<and>
        blockStart st \<le> int lim \<and> (\<forall>sp\<in>set (removeList st). fst sp \<le> blockStart st)) \<and>
     (quote2Open st \<longrightarrow> \<not> quote1Open st \<and> 0 \<le> quote2Start st \<and> quote2Start st \<le> int lim \<and>
        (\<forall>sp\<in>set (removeList st). fst sp \<le> quote2Start st)) \<and>
     (quote1Open st \<longrightarrow> 0 \<le> quote1Start st \<and> quote1Start st \<le> int lim \<and>
        (\<forall>sp\<in>set (removeList st). fst sp \<le> quote1Start st))"

subsection \<open>The marker list is the single-pass scan\<close>


declare find_all_from.simps [simp del]

lemma find_all_from_set:
  "set (find_all_from hay want t pos) =
     {x. comType x = t \<and> pos \<le> idx x \<and> occurs_at want hay (idx x)}"
proof (induction hay want t pos rule: find_all_from.induct)
  case (1 hay want t pos)
  show ?case
  proof (cases "str_find hay want pos")
    case None
    then show ?thesis
      using str_find_None [OF None] by (auto simp: find_all_from.simps [of hay want t pos])
  next
    case (Some i)
    from str_find_Some [OF Some] have i: "pos \<le> i" "occurs_at want hay i"
      and before: "\<And>j. pos \<le> j \<Longrightarrow> j < i \<Longrightarrow> \<not> occurs_at want hay j" by auto
    have "set (find_all_from hay want t pos) =
        insert \<lparr>idx = i, comType = t\<rparr> (set (find_all_from hay want t (Suc i)))"
      using Some by (simp add: find_all_from.simps [of hay want t pos])
    also have "\<dots> = insert \<lparr>idx = i, comType = t\<rparr>
        {x. comType x = t \<and> Suc i \<le> idx x \<and> occurs_at want hay (idx x)}"
      using "1.IH" Some by simp
    also have "\<dots> = {x. comType x = t \<and> pos \<le> idx x \<and> occurs_at want hay (idx x)}"
    proof (intro set_eqI iffI)
      fix x :: comment_item
      assume "x \<in> {x. comType x = t \<and> pos \<le> idx x \<and> occurs_at want hay (idx x)}"
      with before have "comType x = t" "i \<le> idx x" "occurs_at want hay (idx x)"
        by (auto simp: not_less[symmetric])
      then show "x \<in> insert \<lparr>idx = i, comType = t\<rparr>
          {x. comType x = t \<and> Suc i \<le> idx x \<and> occurs_at want hay (idx x)}"
        by (cases "idx x = i") (auto intro: comment_item.equality)
    qed (use i in auto)
    finally show ?thesis .
  qed
qed

lemma find_all_from_sorted:
  "sorted_wrt (<) (map idx (find_all_from hay want t pos))"
proof (induction hay want t pos rule: find_all_from.induct)
  case (1 hay want t pos)
  show ?case
  proof (cases "str_find hay want pos")
    case None
    then show ?thesis by (simp add: find_all_from.simps [of hay want t pos])
  next
    case (Some i)
    then have "\<forall>x\<in>set (find_all_from hay want t (Suc i)). i < idx x"
      by (auto simp: find_all_from_set)
    with "1.IH" Some show ?thesis
      by (simp add: find_all_from.simps [of hay want t pos])
  qed
qed

lemma find_all_from_distinct: "distinct (find_all_from hay want t pos)"
  using find_all_from_sorted [of hay want t pos]
  by (simp add: strict_sorted_iff distinct_map)

lemma scan_markers_head:
  "set (case marker_at (c # cs) of None \<Rightarrow> [] | Some t \<Rightarrow> [\<lparr>idx = i, comType = t\<rparr>]) =
     {x. idx x = i \<and> marker_at (c # cs) = Some (comType x)}"
proof (cases "marker_at (c # cs)")
  case None
  then show ?thesis by simp
next
  case (Some t)
  have "x = \<lparr>idx = i, comType = t\<rparr>" if "idx x = i" "comType x = t" for x :: comment_item
    using that by (simp add: comment_item.equality)
  with Some show ?thesis by auto
qed

lemma scan_markers_set:
  "set (scan_markers s i) =
     {x. i \<le> idx x \<and> idx x < i + length s \<and> marker_at (drop (idx x - i) s) = Some (comType x)}"
proof (induction s arbitrary: i)
  case Nil
  then show ?case by simp
next
  case (Cons c cs)
  have tail: "set (scan_markers cs (Suc i)) =
      {x. Suc i \<le> idx x \<and> idx x < Suc i + length cs \<and>
          marker_at (drop (idx x - Suc i) cs) = Some (comType x)}"
    by (rule Cons.IH)
  have drop_step: "drop (k - i) (c # cs) = drop (k - Suc i) cs" if "Suc i \<le> k" for k
  proof -
    from that have "k - i = Suc (k - Suc i)" by simp
    then show ?thesis by simp
  qed
  have "set (scan_markers (c # cs) i) =
      {x. idx x = i \<and> marker_at (c # cs) = Some (comType x)} \<union> set (scan_markers cs (Suc i))"
    by (simp add: scan_markers_head)
  also have "\<dots> = {x. i \<le> idx x \<and> idx x < i + length (c # cs) \<and>
                     marker_at (drop (idx x - i) (c # cs)) = Some (comType x)}"
  proof (intro set_eqI iffI)
    fix x :: comment_item
    assume "x \<in> {x. idx x = i \<and> marker_at (c # cs) = Some (comType x)} \<union> set (scan_markers cs (Suc i))"
    then show "x \<in> {x. i \<le> idx x \<and> idx x < i + length (c # cs) \<and>
                     marker_at (drop (idx x - i) (c # cs)) = Some (comType x)}"
    proof
      assume "x \<in> {x. idx x = i \<and> marker_at (c # cs) = Some (comType x)}"
      then show ?thesis by simp
    next
      assume "x \<in> set (scan_markers cs (Suc i))"
      with tail have "Suc i \<le> idx x" "idx x < Suc i + length cs"
        "marker_at (drop (idx x - Suc i) cs) = Some (comType x)" by auto
      with drop_step [of "idx x"] show ?thesis by simp
    qed
  next
    fix x :: comment_item
    assume x: "x \<in> {x. i \<le> idx x \<and> idx x < i + length (c # cs) \<and>
                     marker_at (drop (idx x - i) (c # cs)) = Some (comType x)}"
    show "x \<in> {x. idx x = i \<and> marker_at (c # cs) = Some (comType x)} \<union> set (scan_markers cs (Suc i))"
    proof (cases "idx x = i")
      case True
      with x show ?thesis by simp
    next
      case False
      with x have k: "Suc i \<le> idx x" by simp
      with x drop_step [OF k] have "marker_at (drop (idx x - Suc i) cs) = Some (comType x)"
        "idx x < Suc i + length cs" by simp_all
      with k tail show ?thesis by simp
    qed
  qed
  finally show ?case .
qed

lemma scan_markers_sorted: "sorted_wrt (<) (map idx (scan_markers s i))"
proof (induction s arbitrary: i)
  case Nil
  then show ?case by simp
next
  case (Cons c cs)
  have "\<forall>x\<in>set (scan_markers cs (Suc i)). i < idx x"
    by (simp add: scan_markers_set)
  with Cons.IH [of "Suc i"] show ?case
    by (cases "marker_at (c # cs)") simp_all
qed

lemma occurs_at_nonempty:
  "want \<noteq> [] \<Longrightarrow> occurs_at want hay j \<longleftrightarrow> take (length want) (drop j hay) = want"
proof
  assume "want \<noteq> []" "take (length want) (drop j hay) = want"
  then have "length want \<le> length hay - j" "0 < length want"
    by (metis length_take min.bounded_iff order_refl length_drop, simp)
  then have "j + length want \<le> length hay" by arith
  with \<open>take (length want) (drop j hay) = want\<close> show "occurs_at want hay j"
    by (simp add: occurs_at_def)
qed (simp add: occurs_at_def)

lemma marker_text_nonempty: "marker_text t \<noteq> []"
  by (cases t) (simp_all add: marker_text_def)

lemma occurs_marker:
  "occurs_at (marker_text t) line j \<longleftrightarrow> j < length line \<and> marker_at (drop j line) = Some t"
proof -
  have "take (length (marker_text t)) u = marker_text t \<longleftrightarrow> u \<noteq> [] \<and> marker_at u = Some t" for u
  proof (cases u rule: remdups_adj.cases)
    case 1
    then show ?thesis by (cases t) (simp_all add: marker_text_def marker_at_def)
  next
    case (2 c)
    then show ?thesis by (cases t) (auto simp: marker_text_def marker_at_def)
  next
    case (3 c d r)
    then show ?thesis by (cases t) (auto simp: marker_text_def marker_at_def)
  qed
  then show ?thesis
    by (simp add: occurs_at_nonempty marker_text_nonempty not_le)
qed


lemma find_all_marker_set:
  "set (find_all_from line (marker_text t) t 0) =
     {x. comType x = t \<and> idx x < length line \<and> marker_at (drop (idx x) line) = Some t}"
  by (auto simp: find_all_from_set occurs_marker)

lemma line_markers_scan: "line_markers line = scan_markers line 0"
proof -
  let ?F = "\<lambda>t. find_all_from line (marker_text t) t 0"
  define A where "A = ?F LineComment @ ?F BlockCommentOpen @ ?F BlockCommentClose @ ?F Quote2 @ ?F Quote1"
  let ?S = "scan_markers line 0"
  have lm: "line_markers line = sort_key idx A"
    by (simp add: line_markers_def findAll_def A_def marker_text_def)
  have setS: "set ?S = {x. idx x < length line \<and> marker_at (drop (idx x) line) = Some (comType x)}"
    by (simp add: scan_markers_set)
  have setA: "set A = set ?S"
  proof -
    have "set A = (\<Union>t\<in>{LineComment, BlockCommentOpen, BlockCommentClose, Quote2, Quote1}. set (?F t))"
      by (auto simp: A_def)
    also have "\<dots> = set ?S"
    proof (intro set_eqI iffI)
      fix x :: comment_item
      assume "x \<in> set ?S"
      with setS show "x \<in> (\<Union>t\<in>{LineComment, BlockCommentOpen, BlockCommentClose, Quote2, Quote1}. set (?F t))"
        by (cases "comType x") (auto simp: find_all_marker_set)
    qed (auto simp: find_all_marker_set setS)
    finally show ?thesis .
  qed
  have distA: "distinct A"
    by (auto simp: A_def find_all_from_distinct find_all_from_set)
  have inj: "inj_on idx (set A)"
  proof (rule inj_onI)
    fix x y :: comment_item
    assume "x \<in> set A" "y \<in> set A" "idx x = idx y"
    with setA setS have "comType x = comType y" by auto
    with \<open>idx x = idx y\<close> show "x = y" by (simp add: comment_item.equality)
  qed
  have sA: "sorted_wrt (<) (map idx (sort_key idx A))"
    using distA inj by (simp add: strict_sorted_iff distinct_map)
  have "map idx (sort_key idx A) = map idx ?S"
    by (rule strict_sorted_equal [OF scan_markers_sorted sA]) (simp add: setA)
  moreover have "inj_on idx (set (sort_key idx A) \<union> set ?S)"
    using inj setA by simp
  ultimately show ?thesis
    by (simp add: lm inj_on_map_eq_map)
qed


subsection \<open>Scanning lemmas\<close>


lemma marker_at_take2: "marker_at s = marker_at (take 2 s)"
  by (simp add: marker_at_def)

lemma marker_at_plain_char:
  "c \<notin> {CHR ''/'', CHR ''*'', DQ, SQ} \<Longrightarrow> marker_at (c # s) = None"
  by (simp add: marker_at_def)

lemma marker_at_single:
  "c \<notin> {CHR ''/'', CHR ''*''} \<or> s = [] \<or> hd s \<notin> {CHR ''/'', CHR ''*''} \<Longrightarrow>
     marker_at (c # s) = marker_at [c]"
  by (cases s) (auto simp: marker_at_def)

lemma scan_markers_plain:
  "plain a \<Longrightarrow> scan_markers (a @ s) i = scan_markers s (i + length a)"
proof (induction a arbitrary: i)
  case Nil
  then show ?case by simp
next
  case (Cons c a)
  from Cons.prems have "c \<notin> {CHR ''/'', CHR ''*'', DQ, SQ}" "plain a"
    by (auto simp: plain_def)
  with Cons.IH [of "Suc i"] show ?case
    by (simp add: marker_at_plain_char)
qed

lemma scan_markers_append:
  "pre = [] \<or> s = [] \<or> last pre \<notin> {CHR ''/'', CHR ''*''} \<or> hd s \<notin> {CHR ''/'', CHR ''*''} \<Longrightarrow>
     scan_markers (pre @ s) i = scan_markers pre i @ scan_markers s (i + length pre)"
proof (induction pre arbitrary: i)
  case Nil
  then show ?case by simp
next
  case (Cons c cs)
  have head: "marker_at (c # cs @ s) = marker_at (c # cs)"
  proof (cases cs)
    case Nil
    with Cons.prems have "c \<notin> {CHR ''/'', CHR ''*''} \<or> s = [] \<or> hd s \<notin> {CHR ''/'', CHR ''*''}"
      by auto
    then show ?thesis
      using marker_at_single [of c s] Nil by simp
  next
    case (Cons d ds)
    have "marker_at (c # cs @ s) = marker_at (take 2 (c # cs @ s))" by (rule marker_at_take2)
    also have "\<dots> = marker_at (take 2 (c # cs))" using Cons by simp
    also have "\<dots> = marker_at (c # cs)" by (rule marker_at_take2 [symmetric])
    finally show ?thesis .
  qed
  from Cons.prems have "cs = [] \<or> s = [] \<or> last cs \<notin> {CHR ''/'', CHR ''*''} \<or>
      hd s \<notin> {CHR ''/'', CHR ''*''}"
    by (cases cs) auto
  with Cons.IH [of "Suc i"] head show ?case by simp
qed

lemma scan_items_append:
  "scan_items st (xs @ ys) =
     (case scan_items st xs of Inl r \<Rightarrow> Inl r | Inr st' \<Rightarrow> scan_items st' ys)"
  by (induction xs arbitrary: st) (auto split: sum.splits)

lemma scan_markers_two:
  "plain b \<Longrightarrow> scan_markers (x # y # b) i =
     (case marker_at [x, y] of None \<Rightarrow> [] | Some t \<Rightarrow> [\<lparr>idx = i, comType = t\<rparr>])
     @ (case marker_at (y # b) of None \<Rightarrow> [] | Some t \<Rightarrow> [\<lparr>idx = Suc i, comType = t\<rparr>])"
proof -
  assume "plain b"
  then have "scan_markers b (Suc (Suc i)) = []"
    using scan_markers_plain [of b "[]" "Suc (Suc i)"] by simp
  moreover have "marker_at (x # y # b) = marker_at [x, y]"
  proof -
    have "marker_at (x # y # b) = marker_at (take 2 (x # y # b))" by (rule marker_at_take2)
    also have "\<dots> = marker_at (take 2 [x, y])" by simp
    also have "\<dots> = marker_at [x, y]" by (rule marker_at_take2 [symmetric])
    finally show ?thesis .
  qed
  ultimately show ?thesis by simp
qed

lemma marker_at_after_slash:
  "plain b \<Longrightarrow> marker_at (CHR ''/'' # b) = None"
  by (cases b) (auto simp: marker_at_def plain_def)

lemma marker_at_after_star:
  "plain b \<Longrightarrow> marker_at (CHR ''*'' # b) = None"
  by (cases b) (auto simp: marker_at_def plain_def)

lemma getJavaline_good:
  "std_getline inp = (line, rest, True) \<Longrightarrow>
   getJavaline rd inp =
     (case scan_items (scan_start (rd\<lparr>lineNum := Suc (lineNum rd), removeList := []\<rparr>))
             (line_markers line) of
        Inl (i, st) \<Rightarrow>
          (case str_erase_tail line i of Inl e \<Rightarrow> Inl e | Inr l \<Rightarrow> Inr (reader_of st, l, True, rest))
      | Inr st \<Rightarrow>
          (case finish_line st line of Inl e \<Rightarrow> Inl e | Inr l \<Rightarrow> Inr (reader_of st, l, True, rest)))"
  by (simp add: getJavaline_def javaline_process_def)

lemma getJavaline_eof:
  "std_getline inp = (line, rest, False) \<Longrightarrow>
   getJavaline rd inp =
     (case finish_line (scan_start rd) line of Inl e \<Rightarrow> Inl e | Inr l \<Rightarrow> Inr (rd, l, False, rest))"
  by (simp add: getJavaline_def javaline_process_def)

text \<open>C3: A \<open>//\<close> reached outside any open comment or literal truncates the line
  there and the line is returned at once: the output is exactly the text before
  \<open>//\<close>, including any literals or closed comments in it, which are not
  erased on this path.\<close>

theorem line_comment_truncates:
  assumes closed: "\<not> isCommentOpen rd"
    and pre: "scan_items (scan_start (rd\<lparr>lineNum := Suc (lineNum rd), removeList := []\<rparr>))
                (scan_markers pre 0) = Inr st"
    and st: "\<not> isCommentOpen st" "\<not> quote1Open st" "\<not> quote2Open st"
    and last: "pre = [] \<or> last pre \<notin> {CHR ''/'', CHR ''*''}"
    and nl: "NL \<notin> set pre" "NL \<notin> set post"
  shows "getJavaline rd (pre @ ''//'' @ post @ NL # rest) = Inr (reader_of st, pre, True, rest)"
proof -
  let ?line = "pre @ ''//'' @ post"
  have gl: "std_getline (pre @ ''//'' @ post @ NL # rest) = (?line, rest, True)"
    using nl std_getline_append [of ?line rest] by simp
  have "scan_markers (pre @ ''//'' @ post) 0 = scan_markers pre 0 @ scan_markers (''//'' @ post) (0 + length pre)"
    by (rule scan_markers_append) (use last in auto)
  then have "line_markers ?line = scan_markers pre 0 @ scan_markers (''//'' @ post) (length pre)"
    by (simp add: line_markers_scan)
  also have "scan_markers (''//'' @ post) (length pre) =
      \<lparr>idx = length pre, comType = LineComment\<rparr> # scan_markers (CHR ''/'' # post) (Suc (length pre))"
    by (simp add: marker_at_def)
  finally have lm: "line_markers ?line = scan_markers pre 0 @
      \<lparr>idx = length pre, comType = LineComment\<rparr> # scan_markers (CHR ''/'' # post) (Suc (length pre))" .
  have "scan_step st \<lparr>idx = length pre, comType = LineComment\<rparr> = Inl (length pre, st)"
    using st by (simp add: scan_step_def)
  then have "scan_items (scan_start (rd\<lparr>lineNum := Suc (lineNum rd), removeList := []\<rparr>))
      (line_markers ?line) = Inl (length pre, st)"
    unfolding lm scan_items_append pre by simp
  moreover have "str_erase_tail ?line (length pre) = Inr pre"
    by (simp add: str_erase_tail_ok)
  ultimately show ?thesis
    unfolding getJavaline_good [OF gl] by simp
qed


lemma scan_plain_tail: "plain b \<Longrightarrow> scan_markers b i = []"
  using scan_markers_plain [of b "[]" i] by simp

text \<open>C2: A block comment opened on one line and closed on the next: the first
  line keeps only the text before \<open>/*\<close> and leaves the reader inside the
  comment; the second keeps only the text after \<open>*/\<close> and leaves it
  outside.\<close>

theorem block_comment_spans_lines:
  assumes closed: "\<not> isCommentOpen rd"
    and pl: "plain a" "plain b" "plain c" "plain d"
    and nl: "NL \<notin> set a" "NL \<notin> set b" "NL \<notin> set c" "NL \<notin> set d"
    and len: "length (a @ ''/*'' @ b @ NL # c @ ''*/'' @ d) < 2 ^ 31"
  shows "\<exists>rd1 rd2.
    getJavaline rd (a @ ''/*'' @ b @ NL # c @ ''*/'' @ d @ NL # rest) =
      Inr (rd1, a, True, c @ ''*/'' @ d @ NL # rest) \<and> isCommentOpen rd1 \<and>
    getJavaline rd1 (c @ ''*/'' @ d @ NL # rest) = Inr (rd2, d, True, rest) \<and> \<not> isCommentOpen rd2"
proof -
  let ?l1 = "a @ ''/*'' @ b" and ?l2 = "c @ ''*/'' @ d"
  let ?r1 = "c @ ''*/'' @ d @ NL # rest"
  have gl1: "std_getline (a @ ''/*'' @ b @ NL # ?r1) = (?l1, ?r1, True)"
    using nl std_getline_append [of ?l1 ?r1] by simp
  have gl2: "std_getline ?r1 = (?l2, rest, True)"
    using nl std_getline_append [of ?l2 rest] by simp
  have m1: "line_markers ?l1 = [\<lparr>idx = length a, comType = BlockCommentOpen\<rparr>]"
    using pl by (simp add: line_markers_scan scan_markers_plain scan_markers_two marker_at_after_star scan_plain_tail,
                 simp add: marker_at_def)
  have m2: "line_markers ?l2 = [\<lparr>idx = length c, comType = BlockCommentClose\<rparr>]"
    using pl by (simp add: line_markers_scan scan_markers_plain scan_markers_two marker_at_after_slash scan_plain_tail,
                 simp add: marker_at_def)
  define rd1 where "rd1 = \<lparr>isCommentOpen = True, removeList = [], lineNum = Suc (lineNum rd)\<rparr>"
  define rd2 where "rd2 = \<lparr>isCommentOpen = False, removeList = [(0, int (length c) + 2)],
                           lineNum = Suc (Suc (lineNum rd))\<rparr>"
  from len have la: "length a < 2 ^ 64" and lc: "length c + 2 < 2 ^ 64" by simp_all
  have "getJavaline rd (a @ ''/*'' @ b @ NL # ?r1) = Inr (rd1, a, True, ?r1)"
    unfolding getJavaline_good [OF gl1] m1 using closed la
    by (simp add: scan_step_def scan_start_def finish_line_def str_erase_tail_ok reader_of_def
                  rd1_def size_t_of_nat)
  moreover have "getJavaline rd1 ?r1 = Inr (rd2, d, True, rest)"
  proof -
    have "size_t_of (int (length c) + 2) = length c + 2"
      using size_t_of_nat [OF lc] by (simp add: add.commute)
    then show ?thesis
      unfolding getJavaline_good [OF gl2] m2
      by (simp add: scan_step_def scan_start_def finish_line_def str_erase_ok reader_of_def
                    rd1_def rd2_def)
  qed
  ultimately show ?thesis
    by (auto simp: rd1_def rd2_def)
qed


lemma marker_at_simps:
  "marker_at (CHR ''/'' # CHR ''/'' # s) = Some LineComment"
  "marker_at (CHR ''/'' # CHR ''*'' # s) = Some BlockCommentOpen"
  "marker_at (CHR ''*'' # CHR ''/'' # s) = Some BlockCommentClose"
  "marker_at (DQ # s) = Some Quote2"
  "marker_at (SQ # s) = Some Quote1"
  by (simp_all add: marker_at_def)

lemma marker_at_Quote2: "marker_at u = Some Quote2 \<Longrightarrow> u \<noteq> [] \<and> hd u = DQ"
  by (cases u) (auto simp: marker_at_def split: if_splits)

lemma scan_markers_no_quote2:
  "DQ \<notin> set s \<Longrightarrow> it \<in> set (scan_markers s i) \<Longrightarrow> comType it \<noteq> Quote2"
proof
  assume "DQ \<notin> set s" "it \<in> set (scan_markers s i)" "comType it = Quote2"
  then have "marker_at (drop (idx it - i) s) = Some Quote2" "idx it - i < length s"
    by (auto simp: scan_markers_set)
  then have "DQ \<in> set (drop (idx it - i) s)"
    using marker_at_Quote2 by (metis hd_in_set)
  with \<open>DQ \<notin> set s\<close> show False by (meson in_set_dropD)
qed

lemma scan_items_in_quote2:
  "quote2Open st \<Longrightarrow> \<not> isCommentOpen st \<Longrightarrow> \<forall>it\<in>set its. comType it \<noteq> Quote2 \<Longrightarrow>
     scan_items st its = Inr st"
  by (induction its) (simp_all add: scan_step_def)

lemma erase_spans_append:
  "erase_spans s (xs @ ys) = (case erase_spans s ys of Inl e \<Rightarrow> Inl e | Inr s' \<Rightarrow> erase_spans s' xs)"
  by (induction xs) (auto split: sum.splits)

text \<open>C6: The sequence \<open>/*/\<close> is taken as an opening and a closing marker at
  once: the three characters are erased and the text after them is kept as
  code, although in Java the comment is still open.\<close>

theorem slash_star_slash_closes:
  assumes closed: "\<not> isCommentOpen rd"
    and pl: "plain a" "plain b" and nl: "NL \<notin> set a" "NL \<notin> set b"
    and len: "length (a @ ''/*/'' @ b) < 2 ^ 31"
  shows "\<exists>rd'. getJavaline rd (a @ ''/*/'' @ b @ NL # rest) = Inr (rd', a @ b, True, rest) \<and>
               \<not> isCommentOpen rd'"
proof -
  let ?l = "a @ ''/*/'' @ b"
  have gl: "std_getline (a @ ''/*/'' @ b @ NL # rest) = (?l, rest, True)"
    using nl std_getline_append [of ?l rest] by simp
  have m: "line_markers ?l = [\<lparr>idx = length a, comType = BlockCommentOpen\<rparr>,
                                \<lparr>idx = Suc (length a), comType = BlockCommentClose\<rparr>]"
    using pl by (simp add: line_markers_scan scan_markers_plain marker_at_simps
                           marker_at_after_slash scan_plain_tail)
  from len have la: "length a < 2 ^ 64" by simp
  have three: "size_t_of 3 = 3" by (simp add: size_t_of_def)
  show ?thesis
    unfolding getJavaline_good [OF gl] m using closed la
    by (simp add: scan_step_def scan_start_def finish_line_def str_erase_ok reader_of_def
                  size_t_of_nat three)
qed

text \<open>C4: A double-quoted literal on a line without comments is erased together with
  its quotes, whatever comment markers it contains.\<close>

theorem string_literal_removed:
  assumes closed: "\<not> isCommentOpen rd"
    and pl: "plain a" "plain b" and dq: "DQ \<notin> set s"
    and nl: "NL \<notin> set a" "NL \<notin> set s" "NL \<notin> set b"
    and len: "length (a @ DQ # s @ DQ # b) < 2 ^ 31"
  shows "\<exists>rd'. getJavaline rd (a @ DQ # s @ DQ # b @ NL # rest) = Inr (rd', a @ b, True, rest) \<and>
               \<not> isCommentOpen rd'"
proof -
  let ?l = "a @ DQ # s @ DQ # b"
  have gl: "std_getline (a @ DQ # s @ DQ # b @ NL # rest) = (?l, rest, True)"
    using nl std_getline_append [of ?l rest] by simp
  have "scan_markers (s @ DQ # b) (Suc (length a)) =
      scan_markers s (Suc (length a)) @ scan_markers (DQ # b) (Suc (length a) + length s)"
    by (rule scan_markers_append) simp
  then have m: "line_markers ?l = \<lparr>idx = length a, comType = Quote2\<rparr> # scan_markers s (Suc (length a))
      @ [\<lparr>idx = Suc (length a + length s), comType = Quote2\<rparr>]"
    using pl by (simp add: line_markers_scan scan_markers_plain marker_at_simps scan_plain_tail)
  define st1 where "st1 = (scan_start (rd\<lparr>lineNum := Suc (lineNum rd), removeList := []\<rparr>))
                            \<lparr>quote2Start := int (length a), quote2Open := True\<rparr>"
  have step1: "scan_step (scan_start (rd\<lparr>lineNum := Suc (lineNum rd), removeList := []\<rparr>))
                 \<lparr>idx = length a, comType = Quote2\<rparr> = Inr st1"
    using closed by (simp add: scan_step_def scan_start_def st1_def)
  have skip: "scan_items st1 (scan_markers s (Suc (length a))) = Inr st1"
    by (rule scan_items_in_quote2) (auto simp: st1_def scan_start_def closed dest: scan_markers_no_quote2 [OF dq])
  from len have ls: "length s + 2 < 2 ^ 64" "length a < 2 ^ 64" by simp_all
  have sz: "size_t_of (int (length s) + 2) = length s + 2"
    using size_t_of_nat [OF ls(1)] by (simp add: add.commute)
  define st2 where "st2 = st1\<lparr>removeList := [(int (length a), int (length s) + 2)],
                              quote2Start := -1, quote2Open := False\<rparr>"
  have step2: "scan_step st1 \<lparr>idx = Suc (length a + length s), comType = Quote2\<rparr> = Inr st2"
    using closed by (simp add: scan_step_def st1_def st2_def scan_start_def algebra_simps)
  have fin: "finish_line st2 ?l = Inr (a @ b)"
    using closed ls by (simp add: st2_def st1_def scan_start_def finish_line_def str_erase_ok
                                  size_t_of_nat sz)
  have "\<not> isCommentOpen st2" using closed by (simp add: st2_def st1_def scan_start_def)
  then show ?thesis
    unfolding getJavaline_good [OF gl] m scan_items.simps step1 scan_items_append skip
    by (simp add: skip step2 fin reader_of_def)
qed

text \<open>C7: At end of input the reader erases the spans left from the previous line
  from the empty result of the failed \<open>getline\<close>: when that line recorded
  a span that does not start at column 0, \<open>getJavaline\<close> throws
  \<open>std::out_of_range\<close>.\<close>

theorem eof_after_span_raises:
  assumes sp: "removeList rd = sps @ [(b, l)]" and b: "0 < b" "b < 2 ^ 64"
  shows "getJavaline rd [] = Inl OutOfRange"
proof -
  have gl: "std_getline [] = ([], [], False)" by (simp add: std_getline_def)
  have "size_t_of b = nat b" using b by (simp add: size_t_of_def)
  with b have "erase_spans [] (removeList rd) = Inl OutOfRange"
    by (simp add: sp erase_spans_append str_erase_def)
  then show ?thesis
    unfolding getJavaline_eof [OF gl]
    by (simp add: finish_line_def scan_start_def str_erase_tail_def)
qed


lemma scan_inv_mono: "scan_inv lim st \<Longrightarrow> lim \<le> lim' \<Longrightarrow> scan_inv lim' st"
  by (fastforce simp: scan_inv_def)

lemma scan_inv_start: "removeList rd = [] \<Longrightarrow> scan_inv 0 (scan_start rd)"
  by (simp add: scan_inv_def scan_start_def)

lemma scan_step_inv:
  assumes "scan_inv lim st" "lim \<le> idx it" "scan_step st it = Inr st'"
  shows "scan_inv (idx it) st'"
proof -
  have st: "scan_inv (idx it) st" using assms(1,2) by (rule scan_inv_mono)
  show ?thesis
  proof (cases "isCommentOpen st")
    case True
    with st assms(3) show ?thesis
      by (auto simp: scan_step_def scan_inv_def sorted_append split: if_splits)
  next
    case c: False
    show ?thesis
    proof (cases "quote2Open st")
      case True
      with c st assms(3) show ?thesis
        by (auto simp: scan_step_def scan_inv_def sorted_append split: if_splits)
    next
      case q2: False
      show ?thesis
      proof (cases "quote1Open st")
        case True
        with c q2 st assms(3) show ?thesis
          by (auto simp: scan_step_def scan_inv_def sorted_append split: if_splits)
      next
        case False
        with c q2 st assms(3) show ?thesis
          by (cases "comType it") (fastforce simp: scan_step_def scan_inv_def)+
      qed
    qed
  qed
qed

lemma scan_items_inv:
  "sorted (map idx its) \<Longrightarrow> \<forall>it\<in>set its. lim \<le> idx it \<and> idx it \<le> L \<Longrightarrow> lim \<le> L \<Longrightarrow>
   scan_inv lim st \<Longrightarrow> scan_items st its = Inr st' \<Longrightarrow> scan_inv L st'"
proof (induction its arbitrary: st lim)
  case Nil
  then show ?case by (auto intro: scan_inv_mono)
next
  case (Cons it its)
  from Cons.prems obtain st1 where s1: "scan_step st it = Inr st1"
    and rest: "scan_items st1 its = Inr st'"
    by (auto split: sum.splits)
  from Cons.prems(2,4) s1 have "scan_inv (idx it) st1" by (auto intro: scan_step_inv)
  with Cons.prems rest show ?case
    by (intro Cons.IH [of "idx it" st1]) auto
qed

lemma scan_step_Inl: "scan_step st it = Inl (i, st') \<Longrightarrow> i = idx it \<and> st' = st"
  by (auto simp: scan_step_def split: if_splits com_type.splits)

lemma scan_items_Inl:
  "scan_items st its = Inl (i, st') \<Longrightarrow> (\<exists>it\<in>set its. i = idx it) \<and> lineNum st' = lineNum st"
proof (induction its arbitrary: st)
  case Nil
  then show ?case by simp
next
  case (Cons it its)
  show ?case
  proof (cases "scan_step st it")
    case (Inl r)
    with Cons.prems scan_step_Inl show ?thesis by (cases r) auto
  next
    case (Inr st1)
    with Cons.prems have "scan_items st1 its = Inl (i, st')" by simp
    moreover have "lineNum st1 = lineNum st"
      using Inr by (auto simp: scan_step_def split: if_splits com_type.splits)
    ultimately show ?thesis using Cons.IH by auto
  qed
qed

lemma scan_items_lineNum: "scan_items st its = Inr st' \<Longrightarrow> lineNum st' = lineNum st"
proof (induction its arbitrary: st)
  case Nil
  then show ?case by simp
next
  case (Cons it its)
  then obtain st1 where "scan_step st it = Inr st1" "scan_items st1 its = Inr st'"
    by (auto split: sum.splits)
  moreover have "lineNum st1 = lineNum st"
    using calculation(1) by (auto simp: scan_step_def split: if_splits com_type.splits)
  ultimately show ?case using Cons.IH by simp
qed

lemma size_t_of_nonneg: "0 \<le> i \<Longrightarrow> i < 2 ^ 64 \<Longrightarrow> size_t_of i = nat i"
  by (simp add: size_t_of_def)

lemma erase_spans_ok:
  "sorted (map fst sps) \<Longrightarrow> \<forall>sp\<in>set sps. 0 \<le> fst sp \<and> fst sp \<le> int (length s) \<Longrightarrow>
   length s < 2 ^ 64 \<Longrightarrow>
   \<exists>s'. erase_spans s sps = Inr s' \<and> subseq s' s \<and> (sps \<noteq> [] \<longrightarrow> nat (fst (hd sps)) \<le> length s')"
proof (induction sps)
  case Nil
  then show ?case by simp
next
  case (Cons sp sps)
  from Cons.prems have "sorted (map fst sps)" "\<forall>sp\<in>set sps. 0 \<le> fst sp \<and> fst sp \<le> int (length s)"
    by auto
  with Cons.IH Cons.prems(3) obtain s' where s': "erase_spans s sps = Inr s'" "subseq s' s"
    and hd: "sps \<noteq> [] \<longrightarrow> nat (fst (hd sps)) \<le> length s'" by blast
  have pos: "nat (fst sp) \<le> length s'"
  proof (cases sps)
    case Nil
    with s' Cons.prems(2) show ?thesis by (simp add: nat_le_iff)
  next
    case (Cons sp2 sps2)
    with Cons.prems(1) have "fst sp \<le> fst sp2" by simp
    with hd Cons show ?thesis by simp
  qed
  from Cons.prems(2,3) have "size_t_of (fst sp) = nat (fst sp)"
    by (intro size_t_of_nonneg) auto
  with pos obtain s'' where "str_erase s' (size_t_of (fst sp)) (size_t_of (snd sp)) = Inr s''"
    by (simp add: str_erase_def)
  moreover note str_erase_length [OF this] str_erase_subseq [OF this]
  ultimately show ?case
    using s' \<open>size_t_of (fst sp) = nat (fst sp)\<close> by (auto intro: subseq_order.trans)
qed

text \<open>C1: Reading a line never throws: when \<open>std::getline\<close> delivers a
  line shorter than \<open>INT_MAX\<close>, \<open>getJavaline\<close> returns normally (every
  recorded span is erased in range), the returned text is a subsequence of the
  line (the scrubber only deletes characters) and the line counter advances by one.\<close>

theorem getJavaline_good_line_safe:
  assumes gl: "std_getline inp = (line, rest, True)" and len: "length line < 2 ^ 31"
  shows "\<exists>rd' l. getJavaline rd inp = Inr (rd', l, True, rest) \<and> subseq l line \<and>
                 lineNum rd' = Suc (lineNum rd)"
proof -
  let ?st0 = "scan_start (rd\<lparr>lineNum := Suc (lineNum rd), removeList := []\<rparr>)"
  have marks: "\<forall>it\<in>set (line_markers line). idx it < length line"
    by (simp add: line_markers_scan scan_markers_set)
  show ?thesis
  proof (cases "scan_items ?st0 (line_markers line)")
    case (Inl r)
    obtain i st where r: "r = (i, st)" by fastforce
    from scan_items_Inl [of ?st0 "line_markers line" i st] Inl r marks
    have i: "i < length line" and ln: "lineNum st = Suc (lineNum rd)"
      by (auto simp: scan_start_def)
    then have "str_erase_tail line i = Inr (take i line)" by (simp add: str_erase_tail_ok)
    with Inl r ln show ?thesis
      unfolding getJavaline_good [OF gl] by (simp add: reader_of_def take_is_prefix prefix_imp_subseq)
  next
    case (Inr st)
    have "scan_inv (length line) st"
    proof (rule scan_items_inv [OF _ _ _ _ Inr])
      show "sorted (map idx (line_markers line))"
        by (simp add: line_markers_scan strict_sorted_imp_sorted [OF scan_markers_sorted])
      show "scan_inv 0 ?st0" by (rule scan_inv_start) simp
    qed (use marks in auto)
    then have inv: "sorted (map fst (removeList st))"
      "\<forall>sp\<in>set (removeList st). 0 \<le> fst sp \<and> fst sp \<le> int (length line)"
      "isCommentOpen st \<longrightarrow> 0 \<le> blockStart st \<and> blockStart st \<le> int (length line) \<and>
         (\<forall>sp\<in>set (removeList st). fst sp \<le> blockStart st)"
      by (auto simp: scan_inv_def)
    from Inr have ln: "lineNum st = Suc (lineNum rd)"
      by (auto dest: scan_items_lineNum simp: scan_start_def)
    have "\<exists>l. finish_line st line = Inr l \<and> subseq l line"
    proof (cases "isCommentOpen st")
      case True
      with inv have b: "0 \<le> blockStart st" "blockStart st \<le> int (length line)" by auto
      with len have sz: "size_t_of (blockStart st) = nat (blockStart st)"
        by (intro size_t_of_nonneg) auto
      let ?t = "take (nat (blockStart st)) line"
      have t: "str_erase_tail line (size_t_of (blockStart st)) = Inr ?t"
        using b by (simp add: sz str_erase_tail_ok nat_le_iff)
      have "length ?t = nat (blockStart st)" using b by (simp add: nat_le_iff)
      with inv True len obtain l where "erase_spans ?t (removeList st) = Inr l" "subseq l ?t"
        using erase_spans_ok [of "removeList st" ?t] by fastforce
      with t True show ?thesis
        by (auto simp: finish_line_def intro: subseq_order.trans prefix_imp_subseq take_is_prefix)
    next
      case False
      with inv len obtain l where "erase_spans line (removeList st) = Inr l" "subseq l line"
        using erase_spans_ok [of "removeList st" line] by fastforce
      with False show ?thesis by (simp add: finish_line_def)
    qed
    with Inr ln show ?thesis
      unfolding getJavaline_good [OF gl] by (auto simp: reader_of_def)
  qed
qed


text \<open>C5: The marker list built by five \<open>findAll\<close> searches and a sort is
  strictly ordered by column (no two markers share one) and holds exactly the
  markers that start at each column of the line.\<close>

theorem line_markers_exact:
  "sorted_wrt (<) (map idx (line_markers line)) \<and>
   set (line_markers line) =
     {x. idx x < length line \<and> marker_at (drop (idx x) line) = Some (comType x)}"
  by (simp add: line_markers_scan scan_markers_sorted scan_markers_set)


subsection \<open>Witnesses\<close>


theorem getJavaline_good_line_safe_witness:
  "std_getline (''a/*b*/c'' @ [NL]) = (''a/*b*/c'', [], True) \<and> length ''a/*b*/c'' < (2::nat) ^ 31 \<and>
   (\<exists>rd' l. getJavaline new_reader (''a/*b*/c'' @ [NL]) = Inr (rd', l, True, []) \<and>
      subseq l ''a/*b*/c'' \<and> lineNum rd' = Suc (lineNum new_reader))"
proof -
  have gl: "std_getline (''a/*b*/c'' @ [NL]) = (''a/*b*/c'', [], True)"
    by (simp add: std_getline_def)
  show ?thesis
    using getJavaline_good_line_safe [OF gl] gl by simp
qed

theorem block_comment_spans_lines_witness:
  "\<not> isCommentOpen new_reader \<and> plain ''x'' \<and> plain '' c '' \<and> plain '' d '' \<and> plain ''y'' \<and>
   NL \<notin> set ''x'' \<and> NL \<notin> set '' c '' \<and> NL \<notin> set '' d '' \<and> NL \<notin> set ''y'' \<and>
   length (''x'' @ ''/*'' @ '' c '' @ NL # '' d '' @ ''*/'' @ ''y'') < (2::nat) ^ 31 \<and>
   (\<exists>rd1 rd2.
      getJavaline new_reader (''x'' @ ''/*'' @ '' c '' @ NL # '' d '' @ ''*/'' @ ''y'' @ [NL]) =
        Inr (rd1, ''x'', True, '' d '' @ ''*/'' @ ''y'' @ [NL]) \<and> isCommentOpen rd1 \<and>
      getJavaline rd1 ('' d '' @ ''*/'' @ ''y'' @ [NL]) = Inr (rd2, ''y'', True, []) \<and>
      \<not> isCommentOpen rd2)"
  using block_comment_spans_lines [of new_reader "''x''" "'' c ''" "'' d ''" "''y''" "[]"]
  by (simp add: new_reader_def plain_def)

theorem line_comment_truncates_witness:
  "\<not> isCommentOpen new_reader \<and>
   scan_items (scan_start (new_reader\<lparr>lineNum := Suc (lineNum new_reader), removeList := []\<rparr>))
     (scan_markers (''x = '' @ [DQ, CHR ''s'', DQ] @ ''; '') 0) =
     Inr \<lparr>isCommentOpen = False, removeList = [(4, 3)], lineNum = 1, blockStart = 0,
          quote1Start = 0, quote2Start = -1, quote1Open = False, quote2Open = False\<rparr> \<and>
   (''x = '' @ [DQ, CHR ''s'', DQ] @ ''; '' = [] \<or>
    last (''x = '' @ [DQ, CHR ''s'', DQ] @ ''; '') \<notin> {CHR ''/'', CHR ''*''}) \<and>
   NL \<notin> set (''x = '' @ [DQ, CHR ''s'', DQ] @ ''; '') \<and> NL \<notin> set '' c'' \<and>
   getJavaline new_reader ((''x = '' @ [DQ, CHR ''s'', DQ] @ ''; '') @ ''//'' @ '' c'' @ [NL]) =
     Inr (\<lparr>isCommentOpen = False, removeList = [(4, 3)], lineNum = 1\<rparr>,
          ''x = '' @ [DQ, CHR ''s'', DQ] @ ''; '', True, [])"
proof -
  have h: "scan_items (scan_start (new_reader\<lparr>lineNum := Suc (lineNum new_reader), removeList := []\<rparr>))
     (scan_markers (''x = '' @ [DQ, CHR ''s'', DQ] @ ''; '') 0) =
     Inr \<lparr>isCommentOpen = False, removeList = [(4, 3)], lineNum = 1, blockStart = 0,
          quote1Start = 0, quote2Start = -1, quote1Open = False, quote2Open = False\<rparr>"
    by code_simp
  show ?thesis
    using line_comment_truncates [OF _ h, of "'' c''" "[]"] h
    by (simp add: new_reader_def reader_of_def)
qed

theorem string_literal_removed_witness:
  "\<not> isCommentOpen new_reader \<and> plain ''x = '' \<and> plain '';'' \<and> DQ \<notin> set ''/* no */'' \<and>
   NL \<notin> set ''x = '' \<and> NL \<notin> set ''/* no */'' \<and> NL \<notin> set '';'' \<and>
   length (''x = '' @ DQ # ''/* no */'' @ DQ # '';'') < (2::nat) ^ 31 \<and>
   (\<exists>rd'. getJavaline new_reader (''x = '' @ DQ # ''/* no */'' @ DQ # '';'' @ [NL]) =
            Inr (rd', ''x = '' @ '';'', True, []) \<and> \<not> isCommentOpen rd')"
  using string_literal_removed [of new_reader "''x = ''" "'';''" "''/* no */''" "[]"]
  by (simp add: new_reader_def plain_def)

theorem slash_star_slash_closes_witness:
  "\<not> isCommentOpen new_reader \<and> plain ''a'' \<and> plain ''b'' \<and> NL \<notin> set ''a'' \<and> NL \<notin> set ''b'' \<and>
   length (''a'' @ ''/*/'' @ ''b'') < (2::nat) ^ 31 \<and>
   (\<exists>rd'. getJavaline new_reader (''a'' @ ''/*/'' @ ''b'' @ [NL]) = Inr (rd', ''a'' @ ''b'', True, []) \<and>
      \<not> isCommentOpen rd')"
  using slash_star_slash_closes [of new_reader "''a''" "''b''" "[]"]
  by (simp add: new_reader_def plain_def)

theorem eof_after_span_raises_witness:
  "getJavaline new_reader (''} /* end */'' @ [NL]) =
     Inr (\<lparr>isCommentOpen = False, removeList = [(2, 9)], lineNum = 1\<rparr>, ''} '', True, []) \<and>
   removeList \<lparr>isCommentOpen = False, removeList = [(2, 9)], lineNum = 1\<rparr> = [] @ [(2, 9)] \<and>
   (0::int) < 2 \<and> (2::int) < 2 ^ 64 \<and>
   getJavaline \<lparr>isCommentOpen = False, removeList = [(2, 9)], lineNum = 1\<rparr> [] = Inl OutOfRange"
proof -
  have r: "getJavaline new_reader (''} /* end */'' @ [NL]) =
     Inr (\<lparr>isCommentOpen = False, removeList = [(2, 9)], lineNum = 1\<rparr>, ''} '', True, [])"
    by code_simp
  show ?thesis
    using eof_after_span_raises [of "\<lparr>isCommentOpen = False, removeList = [(2, 9)], lineNum = 1\<rparr>" "[]" 2 9] r
    by simp
qed

end
