(* ===== verification/Tokenizer.thy ===== *)
theory Tokenizer
  imports Prelude
begin

text \<open>
  The generic-aware tokenizer of src/javatree: \<open>FindSplit\<close> (javatree.cpp)
  finds the next delimiter outside angle brackets, \<open>Split\<close> (split.h) cuts a
  string into the non-empty pieces between such delimiters, and the two
  \<open>std::regex_replace\<close> calls of \<open>FindClassDefsInFile\<close> squeeze the blanks
  around \<open><\<close>, \<open>>\<close> and \<open>,\<close> before splitting.  Each is given with a
  declarative reference and proved equal to it.
\<close>

subsection \<open>FindSplit\<close>

text \<open>The loop of \<open>FindSplit(str, delimList, begIdx)\<close>: \<open>depth\<close> counts
  the open angle brackets seen since \<open>begIdx\<close>; a character is a match only
  when the depth after it is 0.\<close>

function find_split_loop :: "string \<Rightarrow> char list \<Rightarrow> int \<Rightarrow> nat \<Rightarrow> nat option" where
  "find_split_loop str delims depth idx =
     (if idx < length str then
        (let c = str ! idx;
             d1 = (if c = CHR ''<'' then depth + 1 else depth);
             d2 = (if c = CHR ''>'' then d1 - 1 else d1)
         in if d2 = 0 \<and> c \<in> set delims then Some idx
            else find_split_loop str delims d2 (Suc idx))
      else None)"
  by pat_completeness auto
termination
  by (relation "measure (\<lambda>(str, delims, depth, idx). length str - idx)") auto

declare find_split_loop.simps [simp del]

definition FindSplit :: "string \<Rightarrow> char list \<Rightarrow> nat \<Rightarrow> nat option" where
  "FindSplit str delims begIdx = find_split_loop str delims 0 begIdx"

text \<open>The reference: the first index from \<open>b\<close> on whose character is a
  delimiter and at which the brackets opened since \<open>b\<close> are all closed.\<close>

definition angle_depth :: "string \<Rightarrow> int" where
  "angle_depth s = int (count_list s (CHR ''<'')) - int (count_list s (CHR ''>''))"

definition top_level_delim :: "string \<Rightarrow> char list \<Rightarrow> nat \<Rightarrow> nat \<Rightarrow> bool" where
  "top_level_delim str delims b j \<longleftrightarrow>
     str ! j \<in> set delims \<and> angle_depth (take (Suc j - b) (drop b str)) = 0"

definition first_top_level :: "string \<Rightarrow> char list \<Rightarrow> nat \<Rightarrow> nat option" where
  "first_top_level str delims b = find (top_level_delim str delims b) [b..<length str]"

lemma find_split_loop_bounds:
  "find_split_loop str delims depth idx = Some i \<Longrightarrow> idx \<le> i \<and> i < length str"
proof (induction str delims depth idx rule: find_split_loop.induct)
  case (1 str delims depth idx)
  then show ?case
    by (fastforce simp: find_split_loop.simps [of str delims depth idx] Let_def split: if_splits)
qed

subsection \<open>Split\<close>

text \<open>The constructor \<open>Split(str, delimList, FindSplit)\<close>: a piece is pushed
  for every delimiter that does not directly follow the previous one, and the
  remainder after the last delimiter when it is not empty.\<close>

function split_loop :: "string \<Rightarrow> char list \<Rightarrow> nat \<Rightarrow> string list" where
  "split_loop str delims lastPos =
     (case FindSplit str delims lastPos of
        Some pos \<Rightarrow>
          (if pos \<noteq> lastPos then [take (pos - lastPos) (drop lastPos str)] else [])
          @ split_loop str delims (Suc pos)
      | None \<Rightarrow> (if lastPos < length str then [drop lastPos str] else []))"
  by pat_completeness auto
termination
proof (relation "measure (\<lambda>(str, delims, lastPos). length str - lastPos)")
  fix str delims lastPos pos
  assume "FindSplit str delims lastPos = Some pos"
  then have "lastPos \<le> pos \<and> pos < length str"
    unfolding FindSplit_def by (rule find_split_loop_bounds)
  then show "((str, delims, Suc pos), str, delims, lastPos)
               \<in> measure (\<lambda>(str, delims, lastPos). length str - lastPos)"
    by auto
qed simp

declare split_loop.simps [simp del]

definition Split :: "string \<Rightarrow> char list \<Rightarrow> string list" where
  "Split str delims = split_loop str delims 0"

text \<open>The reference for bracket-free text: cut at every delimiter, drop the
  empty pieces.\<close>

fun split_on :: "char list \<Rightarrow> string \<Rightarrow> string list" where
  "split_on delims [] = [[]]"
| "split_on delims (c # cs) =
     (if c \<in> set delims then [] # split_on delims cs
      else (case split_on delims cs of t # ts \<Rightarrow> (c # t) # ts | [] \<Rightarrow> [[c]]))"

subsection \<open>Blank normalisation\<close>

text \<open>\<open>ReplaceAll(rightClass, "\t", " ")\<close> (lstring.h, outside src/).\<close>

definition replace_tab :: "string \<Rightarrow> string" where
  "replace_tab s = map (\<lambda>c. if c = TAB then CHR '' '' else c) s"

definition is_blank :: "char \<Rightarrow> bool" where
  "is_blank c \<longleftrightarrow> c = CHR '' ''"

text \<open>\<open>std::regex_replace(s, std::regex(" *([<>,])"), "$1")\<close>: at each
  position where a run of blanks followed by \<open><\<close>, \<open>>\<close> or \<open>,\<close> starts
  (the leftmost, longest match), the run is dropped; elsewhere one character
  is copied and the search resumes after it.\<close>

function space_special :: "string \<Rightarrow> string" where
  "space_special s =
     (case dropWhile is_blank s of
        d # rest \<Rightarrow>
          (if d \<in> set ''<>,'' then d # space_special rest
           else (case s of c # cs \<Rightarrow> c # space_special cs | [] \<Rightarrow> []))
      | [] \<Rightarrow> s)"
  by pat_completeness auto
termination
proof (relation "measure length")
  fix s d rest
  assume "dropWhile is_blank s = d # rest"
  then have "length (d # rest) \<le> length s" by (metis length_dropWhile_le)
  then show "(rest, s) \<in> measure length" by simp
qed auto

declare space_special.simps [simp del]

text \<open>\<open>std::regex_replace(s, std::regex("([<,]) *"), "$1")\<close>: the blanks
  after each \<open><\<close> or \<open>,\<close> are dropped.\<close>

function special_space :: "string \<Rightarrow> string" where
  "special_space [] = []"
| "special_space (c # cs) =
     (if c \<in> set ''<,'' then c # special_space (dropWhile is_blank cs)
      else c # special_space cs)"
  by pat_completeness auto
termination
  by (relation "measure length") (auto simp: le_imp_less_Suc length_dropWhile_le)

text \<open>The reference for \<open>space_special\<close>: a blank is dropped exactly when
  the next character that is not a blank is \<open><\<close>, \<open>>\<close> or \<open>,\<close>.\<close>

fun drop_blank_before :: "string \<Rightarrow> string" where
  "drop_blank_before [] = []"
| "drop_blank_before (c # cs) =
     (if is_blank c \<and> (case dropWhile is_blank cs of d # _ \<Rightarrow> d \<in> set ''<>,'' | [] \<Rightarrow> False)
      then drop_blank_before cs else c # drop_blank_before cs)"

text \<open>The two replacements as \<open>FindClassDefsInFile\<close> applies them, to the
  declaration and again to the parent list.\<close>

definition normalize_blanks :: "string \<Rightarrow> string" where
  "normalize_blanks s = special_space (space_special s)"

subsection \<open>Lemmas\<close>

lemma angle_depth_Nil [simp]: "angle_depth [] = 0"
  by (simp add: angle_depth_def)

lemma angle_depth_Cons [simp]:
  "angle_depth (c # s) =
     (if c = CHR ''<'' then 1 else if c = CHR ''>'' then -1 else 0) + angle_depth s"
  by (simp add: angle_depth_def)

lemma find_split_loop_find:
  "find_split_loop str delims depth idx =
     find (\<lambda>j. str ! j \<in> set delims \<and> depth + angle_depth (take (Suc j - idx) (drop idx str)) = 0)
       [idx..<length str]"
proof (induction str delims depth idx rule: find_split_loop.induct)
  case (1 str delims depth idx)
  show ?case
  proof (cases "idx < length str")
    case False
    then show ?thesis by (simp add: find_split_loop.simps [of str delims depth idx])
  next
    case True
    define c where "c = str ! idx"
    define d2 where "d2 = (let d1 = (if c = CHR ''<'' then depth + 1 else depth)
                            in if c = CHR ''>'' then d1 - 1 else d1)"
    have d2: "d2 = depth + angle_depth [c]"
      by (simp add: d2_def)
    have drop: "drop idx str = c # drop (Suc idx) str"
      using True by (simp add: c_def Cons_nth_drop_Suc)
    have upt: "[idx..<length str] = idx # [Suc idx..<length str]"
      using True by (simp add: upt_conv_Cons)
    have shift: "depth + angle_depth (take (Suc j - idx) (drop idx str)) =
                 d2 + angle_depth (take (Suc j - Suc idx) (drop (Suc idx) str))"
      if "j \<in> set [Suc idx..<length str]" for j
    proof -
      from that have "Suc j - idx = Suc (j - idx)" "Suc j - Suc idx = j - idx" by auto
      then show ?thesis by (simp add: drop d2)
    qed
    have loop: "find_split_loop str delims depth idx =
        (if d2 = 0 \<and> c \<in> set delims then Some idx else find_split_loop str delims d2 (Suc idx))"
      using True
      by (simp add: find_split_loop.simps [of str delims depth idx] c_def d2_def Let_def)
    show ?thesis
    proof (cases "d2 = 0 \<and> c \<in> set delims")
      case True
      then show ?thesis unfolding loop upt by (simp add: drop d2 c_def)
    next
      case stop: False
      have ih: "find_split_loop str delims d2 (Suc idx) =
          find (\<lambda>j. str ! j \<in> set delims \<and> d2 + angle_depth (take (Suc j - Suc idx) (drop (Suc idx) str)) = 0)
            [Suc idx..<length str]"
        using "1.IH" [OF True c_def refl] stop by (simp add: d2_def Let_def)
      have "find (\<lambda>j. str ! j \<in> set delims \<and> depth + angle_depth (take (Suc j - idx) (drop idx str)) = 0)
              [Suc idx..<length str] = find_split_loop str delims d2 (Suc idx)"
        unfolding ih by (rule find_cong) (use shift in auto)
      with stop show ?thesis
        unfolding loop upt by (auto simp: drop d2 c_def)
    qed
  qed
qed

lemma find_split_loop_plain:
  "CHR ''<'' \<notin> set str \<Longrightarrow> CHR ''>'' \<notin> set str \<Longrightarrow>
     find_split_loop str delims 0 idx = find_first_of_from (drop idx str) delims idx"
proof (induction "length str - idx" arbitrary: idx)
  case 0
  then show ?case by (simp add: find_split_loop.simps [of str delims 0 idx])
next
  case (Suc n)
  then have lt: "idx < length str" by simp
  then have drop: "drop idx str = str ! idx # drop (Suc idx) str"
    by (simp add: Cons_nth_drop_Suc)
  have c: "str ! idx \<noteq> CHR ''<''" "str ! idx \<noteq> CHR ''>''"
    using Suc.prems lt by (metis nth_mem)+
  have "n = length str - Suc idx" using Suc.hyps(2) by simp
  then show ?case
    using Suc.hyps(1) Suc.prems lt c
    by (simp add: find_split_loop.simps [of str delims 0 idx] drop)
qed

lemma split_on_no_delim: "set u \<inter> set delims = {} \<Longrightarrow> split_on delims u = [u]"
  by (induction u) auto

lemma split_on_at_delim:
  "set u \<inter> set delims = {} \<Longrightarrow> c \<in> set delims \<Longrightarrow>
     split_on delims (u @ c # v) = u # split_on delims v"
  by (induction u) auto

lemma split_loop_plain:
  "CHR ''<'' \<notin> set str \<Longrightarrow> CHR ''>'' \<notin> set str \<Longrightarrow> lastPos \<le> length str \<Longrightarrow>
     split_loop str delims lastPos = filter (\<lambda>t. t \<noteq> []) (split_on delims (drop lastPos str))"
proof (induction str delims lastPos rule: split_loop.induct)
  case (1 str delims lastPos)
  note fs = find_split_loop_plain [OF "1.prems"(1,2)]
  show ?case
  proof (cases "FindSplit str delims lastPos")
    case None
    then have "set (drop lastPos str) \<inter> set delims = {}"
      by (simp add: FindSplit_def fs find_first_of_from_None)
    with None "1.prems"(3) show ?thesis
      by (auto simp: split_loop.simps [of str delims lastPos] split_on_no_delim)
  next
    case (Some pos)
    then obtain u c v where uv: "drop lastPos str = u @ c # v" "set u \<inter> set delims = {}"
        "c \<in> set delims" "pos = lastPos + length u"
      unfolding FindSplit_def fs by (blast dest: find_first_of_from_split)
    then have tk: "take (pos - lastPos) (drop lastPos str) = u" by simp
    have "drop (Suc (length u)) (drop lastPos str) = v" by (simp add: uv(1))
    then have dr: "drop (Suc pos) str = v" by (simp add: uv(4) add.commute)
    have "Suc pos \<le> length str"
      using uv(1,4) "1.prems"(3) by (metis Suc_le_eq add.commute find_split_loop_bounds
        FindSplit_def Some fs)
    then have ih: "split_loop str delims (Suc pos) = filter (\<lambda>t. t \<noteq> []) (split_on delims v)"
      using "1.IH" [OF Some] "1.prems"(1,2) dr by simp
    have ne: "pos \<noteq> lastPos \<longleftrightarrow> u \<noteq> []" using uv(4) by simp
    have so: "split_on delims (drop lastPos str) = u # split_on delims v"
      unfolding uv(1) by (rule split_on_at_delim [OF uv(2,3)])
    show ?thesis
      using Some ne by (simp add: split_loop.simps [of str delims lastPos] so tk ih)
  qed
qed

lemma drop_blank_before_blanks:
  "\<forall>c\<in>set b. is_blank c \<Longrightarrow> drop_blank_before b = b"
proof (induction b)
  case Nil
  then show ?case by simp
next
  case (Cons x b)
  then have "dropWhile is_blank b = []" by (simp add: dropWhile_eq_Nil_conv)
  with Cons show ?case by (simp del: dropWhile_eq_Nil_conv)
qed

lemma dropWhile_blanks_append:
  "\<forall>c\<in>set b. is_blank c \<Longrightarrow> \<not> is_blank d \<Longrightarrow> dropWhile is_blank (b @ d # rest) = d # rest"
  by (induction b) auto

lemma drop_blank_before_run:
  "\<forall>c\<in>set b. is_blank c \<Longrightarrow> d \<in> set ''<>,'' \<Longrightarrow>
     drop_blank_before (b @ d # rest) = d # drop_blank_before rest"
proof (induction b)
  case Nil
  then show ?case by (auto simp: is_blank_def)
next
  case (Cons x b)
  moreover have "\<not> is_blank d" using Cons.prems(2) by (auto simp: is_blank_def)
  ultimately show ?case by (simp add: dropWhile_blanks_append)
qed

lemma blank_run_split:
  "s = takeWhile is_blank s @ dropWhile is_blank s \<and> (\<forall>c\<in>set (takeWhile is_blank s). is_blank c)"
  by (metis set_takeWhileD takeWhile_dropWhile_id)

lemma space_special_drop_blank_before:
  "space_special s = drop_blank_before s"
proof (induction s rule: space_special.induct)
  case (1 s)
  show ?case
  proof (cases "dropWhile is_blank s")
    case Nil
    then have "\<forall>c\<in>set s. is_blank c" by (simp add: dropWhile_eq_Nil_conv)
    with Nil show ?thesis
      by (simp add: space_special.simps [of s] drop_blank_before_blanks del: dropWhile_eq_Nil_conv)
  next
    case (Cons d rest)
    show ?thesis
    proof (cases "d \<in> set ''<>,''")
      case True
      have "drop_blank_before s = d # drop_blank_before rest"
        using blank_run_split [of s] Cons drop_blank_before_run [OF _ True]
        by metis
      moreover have "space_special s = d # space_special rest"
        unfolding space_special.simps [of s] using Cons True by simp
      ultimately show ?thesis using "1.IH"(1) [OF Cons True] by simp
    next
      case False
      then obtain c cs where s: "s = c # cs"
        using Cons by (cases s) auto
      have "drop_blank_before s = c # drop_blank_before cs"
      proof (cases "is_blank c")
        case True
        with Cons s have "dropWhile is_blank cs = d # rest" by simp
        with False s show ?thesis by simp
      next
        case False
        with s show ?thesis by simp
      qed
      moreover have "space_special s = c # space_special cs"
        unfolding space_special.simps [of s] using Cons False s by simp
      ultimately show ?thesis using "1.IH"(2) [OF Cons False s] by simp
    qed
  qed
qed

lemma filter_nonblank_dropWhile:
  "filter (\<lambda>c. \<not> is_blank c) (dropWhile is_blank s) = filter (\<lambda>c. \<not> is_blank c) s"
  by (induction s) auto

lemma filter_nonblank_drop_blank_before:
  "filter (\<lambda>c. \<not> is_blank c) (drop_blank_before s) = filter (\<lambda>c. \<not> is_blank c) s"
  by (induction s) auto

lemma filter_nonblank_special_space:
  "filter (\<lambda>c. \<not> is_blank c) (special_space s) = filter (\<lambda>c. \<not> is_blank c) s"
  by (induction s rule: special_space.induct) (auto simp: filter_nonblank_dropWhile)

lemma special_space_prefix1: "prefix [b] (special_space s) \<longleftrightarrow> prefix [b] s"
  by (cases s) auto

lemma not_prefix_blank_dropWhile: "\<not> prefix [CHR '' ''] (dropWhile is_blank cs)"
  by (induction cs) (simp_all add: is_blank_def)

lemma special_space_no_blank_after:
  "c \<in> set ''<,'' \<Longrightarrow> \<not> sublist [c, CHR '' ''] (special_space s)"
proof (induction s rule: special_space.induct)
  case 1
  then show ?case by simp
next
  case (2 x cs)
  show ?case
  proof (cases "x \<in> set ''<,''")
    case True
    have "\<not> prefix [c, CHR '' ''] (x # special_space (dropWhile is_blank cs))"
      using not_prefix_blank_dropWhile [of cs] by (simp add: special_space_prefix1)
    with True "2.IH"(1) [OF True "2.prems"] show ?thesis
      by (simp add: sublist_Cons_right)
  next
    case False
    then have "\<not> prefix [c, CHR '' ''] (x # special_space cs)"
      using "2.prems" by auto
    with False "2.IH"(2) [OF False "2.prems"] show ?thesis
      by (simp add: sublist_Cons_right)
  qed
qed
lemma drop_blank_before_hd:
  "drop_blank_before cs = d # r \<Longrightarrow> \<not> is_blank d \<Longrightarrow> \<exists>r'. dropWhile is_blank cs = d # r'"
proof (induction cs arbitrary: r)
  case Nil
  then show ?case by simp
next
  case (Cons x cs)
  show ?case
  proof (cases "is_blank x \<and> (case dropWhile is_blank cs of e # _ \<Rightarrow> e \<in> set ''<>,'' | [] \<Rightarrow> False)")
    case True
    with Cons.prems have "drop_blank_before cs = d # r" by simp
    with Cons.IH Cons.prems(2) True show ?thesis by simp
  next
    case False
    with Cons.prems have "x = d" by (simp split: if_splits)
    with Cons.prems(2) show ?thesis by simp
  qed
qed

lemma drop_blank_before_no_blank_before:
  "d \<in> set ''<>,'' \<Longrightarrow> \<not> sublist [CHR '' '', d] (drop_blank_before s)"
proof (induction s)
  case Nil
  then show ?case by simp
next
  case (Cons x cs)
  have nb: "\<not> is_blank d" using Cons.prems by (auto simp: is_blank_def)
  show ?case
  proof (cases "is_blank x \<and> (case dropWhile is_blank cs of e # _ \<Rightarrow> e \<in> set ''<>,'' | [] \<Rightarrow> False)")
    case True
    with Cons show ?thesis by simp
  next
    case keep: False
    have "\<not> prefix [CHR '' '', d] (x # drop_blank_before cs)"
    proof
      assume "prefix [CHR '' '', d] (x # drop_blank_before cs)"
      then obtain r where x: "x = CHR '' ''" and "drop_blank_before cs = d # r"
        by (auto simp: prefix_def)
      then obtain r' where "dropWhile is_blank cs = d # r'"
        using drop_blank_before_hd nb by blast
      with x keep Cons.prems show False by (simp add: is_blank_def)
    qed
    with keep Cons show ?thesis by (simp add: sublist_Cons_right)
  qed
qed

lemma special_space_keeps_no_blank_before:
  "\<not> sublist [CHR '' '', d] t \<Longrightarrow> \<not> sublist [CHR '' '', d] (special_space t)"
proof (induction t rule: special_space.induct)
  case 1
  then show ?case by simp
next
  case (2 c cs)
  have sub: "\<not> sublist [CHR '' '', d] cs"
    using "2.prems" by (simp add: sublist_Cons_right)
  show ?case
  proof (cases "c \<in> set ''<,''")
    case True
    have "\<not> sublist [CHR '' '', d] (dropWhile is_blank cs)"
      using sub by (meson suffix_dropWhile sublist_order.order_trans suffix_imp_sublist)
    with True "2.IH"(1) show ?thesis
      by (auto simp: sublist_Cons_right)
  next
    case False
    have "\<not> prefix [CHR '' '', d] (c # special_space cs)"
      using "2.prems" by (simp add: sublist_Cons_right special_space_prefix1)
    with False "2.IH"(2) [OF False sub] show ?thesis
      by (simp add: sublist_Cons_right)
  qed
qed

subsection \<open>Properties\<close>

text \<open>C8: \<open>FindSplit(str, delims, b)\<close> returns the first index from \<open>b\<close> on
  whose character is a delimiter and at which every angle bracket opened since
  \<open>b\<close> has been closed, and \<open>npos\<close> (None) when there is none.\<close>

theorem FindSplit_first_top_level:
  "FindSplit str delims b = first_top_level str delims b"
  unfolding FindSplit_def first_top_level_def top_level_delim_def [abs_def] find_split_loop_find
  by simp

text \<open>C9: on text without angle brackets, \<open>Split\<close> is the ordinary split
  at every delimiter with the empty pieces dropped.\<close>

theorem Split_no_generics:
  "CHR ''<'' \<notin> set str \<Longrightarrow> CHR ''>'' \<notin> set str \<Longrightarrow>
     Split str delims = filter (\<lambda>t. t \<noteq> []) (split_on delims str)"
  using split_loop_plain [of str 0 delims] by (simp add: Split_def)


subsection \<open>Witnesses\<close>

theorem Split_no_generics_witness:
  "CHR ''<'' \<notin> set ''extends A,B'' \<and> CHR ''>'' \<notin> set ''extends A,B'' \<and>
   Split ''extends A,B'' '', '' = [''extends'', ''A'', ''B'']"
  using Split_no_generics [of "''extends A,B''" "'', ''"] by simp

end
