(* ===== verification/Linkage.thy ===== *)
theory Linkage
  imports Prelude
begin

text \<open>
  The \<open>ClassLinkage\<close> chains of class_rel.h: every \<open>ClassRelations\<close> object
  embeds three head links (\<open>my_children\<close>, \<open>my_parents\<close>,
  \<open>my_interfaces\<close>); further links are allocated with \<open>new\<close>.  The links
  live in a heap, a list of cells indexed by \<open>lptr\<close> where \<open>None\<close> is a cell
  that is not (or no longer) allocated and allocation appends a cell.  A NULL
  pointer is \<open>None\<close>.  The walks of \<open>add_linkage_to\<close>, \<open>find_relation\<close>
  (class_rel.cpp) and \<open>release_links\<close> (javatree.cpp) follow pointers and
  are \<open>partial_function (option)\<close>: a walk that does not end, or that reads a
  dangling pointer, has no result.  The predicate \<open>chain\<close> relates a head
  link to the cells of its chain and the list of objects it holds, and the
  lemmas show that each walk ends on a chain and implements the list
  operation: \<open>add_linkage\<close> (append unless present), membership, and
  emptying.  The unused \<open>remove_interfaces\<close>, \<open>remove_parents\<close> and
  \<open>remove_children\<close> (class_rel.cpp) share the loop \<open>remove_walk\<close>; a
  delete of a link embedded in an object is undefined behaviour, and the
  lemmas show that every call on an object performs one.
\<close>

type_synonym lptr = nat

record link =
  linkage :: "lptr option"
  relations :: "addr option"

type_synonym lheap = "link option list"

text \<open>The constructor \<open>ClassLinkage() : linkage(NULL), relations(NULL)\<close>.\<close>

definition empty_link :: link where
  "empty_link = \<lparr>linkage = None, relations = None\<rparr>"

definition deref :: "lheap \<Rightarrow> lptr \<Rightarrow> link option" where
  "deref h p = (if p < length h then h ! p else None)"

definition store :: "lheap \<Rightarrow> lptr \<Rightarrow> link \<Rightarrow> lheap" where
  "store h p l = h[p := Some l]"

text \<open>\<open>ClassRelations::add_linkage_to(start_linkage, crel_ptr)\<close>.\<close>

partial_function (option) add_linkage_to :: "lheap \<Rightarrow> lptr \<Rightarrow> addr \<Rightarrow> lheap option" where
  "add_linkage_to h p c =
     (case deref h p of
        None \<Rightarrow> None
      | Some l \<Rightarrow>
          (case relations l of
             None \<Rightarrow> Some (store h p (l\<lparr>relations := Some c\<rparr>))
           | Some r \<Rightarrow>
               if r = c then Some h
               else (case linkage l of
                       Some q \<Rightarrow> add_linkage_to h q c
                     | None \<Rightarrow>
                         (let q = length h
                          in add_linkage_to (store h p (l\<lparr>linkage := Some q\<rparr>) @ [Some empty_link]) q c))))"

text \<open>\<open>ClassRelations::find_relation(start_linkage, crel_ptr)\<close>: the first
  link of the chain holding \<open>crel_ptr\<close>, or NULL.\<close>

partial_function (option) find_relation :: "lheap \<Rightarrow> lptr option \<Rightarrow> addr option \<Rightarrow> lptr option option" where
  "find_relation h p c =
     (case p of
        None \<Rightarrow> Some None
      | Some a \<Rightarrow>
          (case deref h a of
             None \<Rightarrow> None
           | Some l \<Rightarrow> if relations l = c then Some (Some a) else find_relation h (linkage l) c))"

text \<open>The inner loop of \<open>release_links\<close>: walk to the last link, keeping the
  one before it.\<close>

partial_function (option) last_link :: "lheap \<Rightarrow> lptr \<Rightarrow> lptr \<Rightarrow> (lptr \<times> lptr) option" where
  "last_link h prev p =
     (case deref h p of
        None \<Rightarrow> None
      | Some l \<Rightarrow> (case linkage l of None \<Rightarrow> Some (prev, p) | Some q \<Rightarrow> last_link h p q))"

text \<open>\<open>release_links(first_link)\<close>: repeatedly delete the last link and
  clear the pointer to it, until only the first link is left.\<close>

partial_function (option) release_links :: "lheap \<Rightarrow> lptr \<Rightarrow> lheap option" where
  "release_links h first_link =
     (case last_link h first_link first_link of
        None \<Rightarrow> None
      | Some (prev_link, last_ptr) \<Rightarrow>
          if last_ptr \<noteq> first_link then
            (case deref h prev_link of
               None \<Rightarrow> None
             | Some l \<Rightarrow> release_links (store (h[last_ptr := None]) prev_link (l\<lparr>linkage := None\<rparr>)) first_link)
          else Some h)"

declare add_linkage_to.simps [code] find_relation.simps [code] last_link.simps [code]
  release_links.simps [code]

text \<open>\<open>delete linkage_ptr\<close>: frees a link allocated with \<open>new\<close>.  A link
  embedded in a \<open>ClassRelations\<close> object (the predicate \<open>embedded\<close>) was
  not allocated with \<open>new\<close>, and a freed cell is gone: deleting either is
  undefined behaviour, the value \<open>None\<close>.\<close>

definition delete_link :: "(lptr \<Rightarrow> bool) \<Rightarrow> lheap \<Rightarrow> lptr \<Rightarrow> lheap option" where
  "delete_link embedded h p = (if embedded p \<or> deref h p = None then None else Some (h[p := None]))"

text \<open>The \<open>do ... while\<close> loop shared by \<open>ClassRelations::remove_interfaces\<close>,
  \<open>remove_parents\<close> and \<open>remove_children\<close> (class_rel.cpp), from the link
  \<open>p\<close>: remove the related object's own chain (\<open>head a\<close> is the embedded
  head link of object \<open>a\<close> the function walks), clear \<open>relations\<close>, read
  the successor, delete the link, continue with the successor.\<close>

partial_function (option) remove_walk ::
  "(addr \<Rightarrow> lptr) \<Rightarrow> (lptr \<Rightarrow> bool) \<Rightarrow> lheap \<Rightarrow> lptr \<Rightarrow> lheap option" where
  "remove_walk head embedded h p =
     (case deref h p of
        None \<Rightarrow> None
      | Some l \<Rightarrow>
          Option.bind (case relations l of None \<Rightarrow> Some h | Some a \<Rightarrow> remove_walk head embedded h (head a))
            (\<lambda>h1. case deref h1 p of
                     None \<Rightarrow> None
                   | Some l1 \<Rightarrow>
                       (case delete_link embedded (store h1 p (l1\<lparr>relations := None\<rparr>)) p of
                          None \<Rightarrow> None
                        | Some h2 \<Rightarrow>
                            (case linkage l1 of
                               None \<Rightarrow> Some h2
                             | Some q \<Rightarrow> remove_walk head embedded h2 q))))"

declare remove_walk.simps [code]

text \<open>\<open>remove_interfaces(crel_ptr)\<close>, \<open>remove_parents(crel_ptr)\<close> and
  \<open>remove_children(crel_ptr)\<close>: nothing for NULL, else the loop from the
  object's embedded head link; the three differ only in the member they
  start from, given by the parameter \<open>head\<close>.\<close>

definition remove_interfaces :: "(addr \<Rightarrow> lptr) \<Rightarrow> (lptr \<Rightarrow> bool) \<Rightarrow> lheap \<Rightarrow> addr option \<Rightarrow> lheap option" where
  "remove_interfaces interfaces embedded h crel =
     (case crel of None \<Rightarrow> Some h | Some a \<Rightarrow> remove_walk interfaces embedded h (interfaces a))"

definition remove_parents :: "(addr \<Rightarrow> lptr) \<Rightarrow> (lptr \<Rightarrow> bool) \<Rightarrow> lheap \<Rightarrow> addr option \<Rightarrow> lheap option" where
  "remove_parents parents embedded h crel =
     (case crel of None \<Rightarrow> Some h | Some a \<Rightarrow> remove_walk parents embedded h (parents a))"

definition remove_children :: "(addr \<Rightarrow> lptr) \<Rightarrow> (lptr \<Rightarrow> bool) \<Rightarrow> lheap \<Rightarrow> addr option \<Rightarrow> lheap option" where
  "remove_children children embedded h crel =
     (case crel of None \<Rightarrow> Some h | Some a \<Rightarrow> remove_walk children embedded h (children a))"

text \<open>\<open>Release_clist()\<close> (javatree.cpp): for every object of \<open>clist\<close>, in
  order, \<open>release_links\<close> on its children, parents and interfaces heads,
  then \<open>delete crel_ptr\<close>, which frees the object with its three embedded
  head links.  \<open>children\<close>, \<open>parents\<close> and \<open>interfaces\<close> give the head
  link of each member in an object.\<close>

definition release_clist ::
  "(addr \<Rightarrow> lptr) \<Rightarrow> (addr \<Rightarrow> lptr) \<Rightarrow> (addr \<Rightarrow> lptr) \<Rightarrow> lheap \<Rightarrow> addr list \<Rightarrow> lheap option" where
  "release_clist children parents interfaces h0 crels =
     fold (\<lambda>a r. Option.bind r (\<lambda>h.
        Option.bind (release_links h (children a)) (\<lambda>h1.
        Option.bind (release_links h1 (parents a)) (\<lambda>h2.
        Option.bind (release_links h2 (interfaces a)) (\<lambda>h3.
          Some (h3[children a := None, parents a := None, interfaces a := None]))))))
       crels (Some h0)"

text \<open>The list operation the chains implement: an object is appended unless
  it is already present (the edge-set discipline of the graph).\<close>

definition add_linkage :: "'a list \<Rightarrow> 'a \<Rightarrow> 'a list" where
  "add_linkage xs c = (if c \<in> set xs then xs else xs @ [c])"

text \<open>A well-formed chain from \<open>p\<close>: its cells \<open>ps\<close> and the objects \<open>xs\<close>
  they hold.  The empty chain is a head link with both pointers NULL; every
  other link holds an object, and the last one has no successor.\<close>

inductive chain :: "lheap \<Rightarrow> lptr \<Rightarrow> lptr list \<Rightarrow> addr list \<Rightarrow> bool" where
  chain_empty: "deref h p = Some empty_link \<Longrightarrow> chain h p [p] []"
| chain_last: "deref h p = Some \<lparr>linkage = None, relations = Some r\<rparr> \<Longrightarrow> chain h p [p] [r]"
| chain_cons: "deref h p = Some \<lparr>linkage = Some q, relations = Some r\<rparr> \<Longrightarrow>
                 chain h q ps (x # xs) \<Longrightarrow> chain h p (p # ps) (r # x # xs)"

inductive_cases chain_elim: "chain h p ps xs"

text \<open>The cells \<open>S\<close> an object owns: its three well-formed, pairwise
  disjoint chains.\<close>

definition owns :: "(addr \<Rightarrow> lptr) \<Rightarrow> (addr \<Rightarrow> lptr) \<Rightarrow> (addr \<Rightarrow> lptr) \<Rightarrow> lheap \<Rightarrow> addr \<Rightarrow> lptr set \<Rightarrow> bool" where
  "owns children parents interfaces h a S \<longleftrightarrow>
     (\<exists>ps1 xs1 ps2 xs2 ps3 xs3.
        chain h (children a) ps1 xs1 \<and> chain h (parents a) ps2 xs2 \<and> chain h (interfaces a) ps3 xs3 \<and>
        set ps1 \<inter> set ps2 = {} \<and> set ps1 \<inter> set ps3 = {} \<and> set ps2 \<inter> set ps3 = {} \<and>
        S = set ps1 \<union> set ps2 \<union> set ps3)"

subsection \<open>Heap and chain lemmas\<close>

named_theorems heap_simps \<open>reading a heap after a store, an allocation or a free\<close>

lemma deref_store [heap_simps]:
  "deref (store h p l) q = (if q = p \<and> p < length h then Some l else deref h q)"
  by (simp add: deref_def store_def)

lemma deref_append [heap_simps]:
  "deref (h @ [x]) q = (if q = length h then x else deref h q)"
  by (auto simp: deref_def nth_append)

lemma deref_free [heap_simps]:
  "deref (h[p := None]) q = (if q = p then None else deref h q)"
  by (simp add: deref_def)

lemma length_store [heap_simps]: "length (store h p l) = length h"
  by (simp add: store_def)

lemma deref_valid: "deref h p = Some l \<Longrightarrow> p < length h"
  by (simp add: deref_def split: if_splits)

lemma chain_cells:
  "chain h p ps xs \<Longrightarrow> ps \<noteq> [] \<and> hd ps = p \<and> length ps = max 1 (length xs) \<and>
     (\<forall>q\<in>set ps. deref h q \<noteq> None)"
  by (induction rule: chain.induct) auto

lemma chain_det:
  "chain h p ps xs \<Longrightarrow> chain h p ps' xs' \<Longrightarrow> ps' = ps \<and> xs' = xs"
proof (induction arbitrary: ps' xs' rule: chain.induct)
  case (chain_empty h p)
  from chain_empty.prems chain_empty.hyps show ?case
    by (cases rule: chain.cases) (simp_all add: empty_link_def)
next
  case (chain_last h p r)
  from chain_last.prems chain_last.hyps show ?case
    by (cases rule: chain.cases) (simp_all add: empty_link_def)
next
  case (chain_cons h p q r ps x xs)
  note hyp = chain_cons.hyps(1) and IH = chain_cons.IH
  from chain_cons.prems show ?case
  proof (cases rule: chain.cases)
    case (chain_cons q' r' ps'' x' xs'')
    with hyp have "q' = q" "r' = r" by simp_all
    with IH [of ps'' "x' # xs''"] chain_cons show ?thesis by simp
  qed (use hyp in \<open>simp_all add: empty_link_def\<close>)
qed

lemma chain_from_member:
  "chain h p ps xs \<Longrightarrow> a \<in> set ps \<Longrightarrow> \<exists>ps' xs'. chain h a ps' xs' \<and> length ps' \<le> length ps"
proof (induction rule: chain.induct)
  case (chain_cons h p q r ps x xs)
  then show ?case
    by (metis chain.chain_cons le_SucI length_Cons order_refl set_ConsD)
qed (metis chain.intros empty_iff empty_set order_refl set_ConsD)+
lemma chain_distinct: "chain h p ps xs \<Longrightarrow> distinct ps"
proof (induction rule: chain.induct)
  case (chain_cons h p q r ps x xs)
  have "p \<notin> set ps"
  proof
    assume "p \<in> set ps"
    then obtain ps' xs' where c: "chain h p ps' xs'" and "length ps' \<le> length ps"
      using chain_from_member [OF chain_cons.hyps(2)] by blast
    moreover have "ps' = p # ps"
      using chain_det [OF chain.chain_cons [OF chain_cons.hyps(1,2)] c] by simp
    ultimately show False by simp
  qed
  with chain_cons.IH show ?case by simp
qed auto

lemma chain_frame:
  "chain h p ps xs \<Longrightarrow> \<forall>q\<in>set ps. deref h' q = deref h q \<Longrightarrow> chain h' p ps xs"
  by (induction rule: chain.induct) (auto intro: chain.intros)

lemma add_linkage_to_chain:
  "chain h p ps xs \<Longrightarrow>
     \<exists>h' ps'. add_linkage_to h p c = Some h' \<and> chain h' p ps' (add_linkage xs c) \<and>
       length h \<le> length h' \<and> (\<forall>q. q \<notin> set ps \<longrightarrow> q < length h \<longrightarrow> deref h' q = deref h q) \<and>
       (\<forall>q\<in>set ps'. q \<in> set ps \<or> length h \<le> q)"
proof (induction rule: chain.induct)
  case (chain_empty h p)
  let ?h' = "store h p \<lparr>linkage = None, relations = Some c\<rparr>"
  have "add_linkage_to h p c = Some ?h'"
    using chain_empty by (simp add: add_linkage_to.simps [of h p c] empty_link_def)
  moreover have "chain ?h' p [p] [c]"
    using chain_empty deref_valid [OF chain_empty] by (auto simp: heap_simps intro: chain_last)
  ultimately show ?case
    by (intro exI [of _ ?h'] exI [of _ "[p]"]) (auto simp: add_linkage_def heap_simps)
next
  case (chain_last h p r)
  show ?case
  proof (cases "r = c")
    case True
    with chain_last show ?thesis
      by (auto simp: add_linkage_to.simps [of h p c] add_linkage_def intro: chain.chain_last)
  next
    case False
    define q where "q = length h"
    define h1 where "h1 = store h p \<lparr>linkage = Some q, relations = Some r\<rparr> @ [Some empty_link]"
    define h2 where "h2 = store h1 q \<lparr>linkage = None, relations = Some c\<rparr>"
    have pv: "p < length h" using deref_valid [OF chain_last] .
    have "add_linkage_to h1 q c = Some h2"
      unfolding add_linkage_to.simps [of h1 q c]
      by (simp add: h1_def h2_def q_def heap_simps empty_link_def)
    then have run: "add_linkage_to h p c = Some h2"
      using chain_last False by (simp add: add_linkage_to.simps [of h p c] h1_def q_def)
    have "chain h2 q [q] [c]"
      by (rule chain.chain_last) (simp add: h2_def h1_def q_def heap_simps)
    then have "chain h2 p [p, q] [r, c]"
      using pv by (intro chain.chain_cons) (auto simp: h2_def h1_def q_def heap_simps)
    with run False pv show ?thesis
      by (intro exI [of _ h2] exI [of _ "[p, q]"])
        (auto simp: add_linkage_def h2_def h1_def q_def heap_simps)
  qed
next
  case (chain_cons h p q r ps x xs)
  show ?case
  proof (cases "r = c")
    case True
    with chain_cons.hyps show ?thesis
      by (auto simp: add_linkage_to.simps [of h p c] add_linkage_def intro: chain.chain_cons)
  next
    case False
    obtain h' ps' where run: "add_linkage_to h q c = Some h'"
      and ch: "chain h' q ps' (add_linkage (x # xs) c)" and len: "length h \<le> length h'"
      and fr: "\<forall>a. a \<notin> set ps \<longrightarrow> a < length h \<longrightarrow> deref h' a = deref h a"
      and new: "\<forall>a\<in>set ps'. a \<in> set ps \<or> length h \<le> a"
      using chain_cons.IH by blast
    have "p \<notin> set ps"
      using chain_distinct [OF chain.chain_cons [OF chain_cons.hyps(1,2)]] by simp
    then have hp: "deref h' p = deref h p"
      using fr deref_valid [OF chain_cons.hyps(1)] by blast
    obtain y ys where yys: "add_linkage (x # xs) c = y # ys"
      by (cases "add_linkage (x # xs) c") (auto simp: add_linkage_def split: if_splits)
    have "chain h' p (p # ps') (r # y # ys)"
      using ch hp chain_cons.hyps(1) yys by (auto intro: chain.chain_cons)
    moreover have "add_linkage (r # x # xs) c = r # y # ys"
      using False yys by (auto simp: add_linkage_def)
    moreover have "add_linkage_to h p c = Some h'"
      using run False chain_cons.hyps(1) by (simp add: add_linkage_to.simps [of h p c])
    ultimately show ?thesis
      using len fr new by (intro exI [of _ h'] exI [of _ "p # ps'"]) auto
  qed
qed

lemma find_relation_chain:
  "chain h p ps xs \<Longrightarrow>
     \<exists>r. find_relation h (Some p) (Some c) = Some r \<and> (r = None \<longleftrightarrow> c \<notin> set xs) \<and>
       (\<forall>a. r = Some a \<longrightarrow> a \<in> set ps \<and> (\<exists>l. deref h a = Some l \<and> relations l = Some c))"
proof (induction rule: chain.induct)
  case (chain_empty h p)
  then show ?case
    by (simp add: find_relation.simps [of h "Some p"] find_relation.simps [of h None] empty_link_def)
next
  case (chain_last h p r)
  then show ?case
    by (auto simp: find_relation.simps [of h "Some p"] find_relation.simps [of h None])
next
  case (chain_cons h p q r ps x xs)
  then show ?case
    by (auto simp: find_relation.simps [of h "Some p"])
qed

lemma last_link_chain:
  "chain h p ps xs \<Longrightarrow> last_link h prev p = Some (last (prev # butlast ps), last ps)"
proof (induction arbitrary: prev rule: chain.induct)
  case (chain_empty h p)
  then show ?case by (simp add: last_link.simps [of h prev p] empty_link_def)
next
  case (chain_last h p r)
  then show ?case by (simp add: last_link.simps [of h prev p])
next
  case (chain_cons h p q r ps x xs)
  have "ps \<noteq> []" using chain_cells [OF chain_cons.hyps(2)] by simp
  with chain_cons show ?case by (simp add: last_link.simps [of h prev p])
qed

lemma chain_drop_last:
  "chain h p ps xs \<Longrightarrow> 2 \<le> length ps \<Longrightarrow>
     \<exists>l. deref h (last (butlast ps)) = Some l \<and>
       chain (store (h[last ps := None]) (last (butlast ps)) (l\<lparr>linkage := None\<rparr>)) p (butlast ps) (butlast xs)"
proof (induction rule: chain.induct)
  case (chain_cons h p q r ps x xs)
  have cq: "ps \<noteq> [] \<and> hd ps = q \<and> length ps = max 1 (length (x # xs))"
    using chain_cells [OF chain_cons.hyps(2)] by simp
  have dist: "distinct (p # ps)"
    using chain_distinct [OF chain.chain_cons [OF chain_cons.hyps(1,2)]] .
  have pv: "p < length h" using deref_valid [OF chain_cons.hyps(1)] .
  show ?case
  proof (cases "length ps = 1")
    case True
    with cq have ps: "ps = [q]" and xs: "xs = []"
      by (auto simp: length_Suc_conv)
    show ?thesis
      using chain_cons.hyps(1) pv dist ps xs
      by (auto simp: heap_simps intro!: chain.chain_last)
  next
    case False
    with cq have two: "2 \<le> length ps" by (cases xs) auto
    then obtain l where l: "deref h (last (butlast ps)) = Some l"
      and ch: "chain (store (h[last ps := None]) (last (butlast ps)) (l\<lparr>linkage := None\<rparr>)) q
                 (butlast ps) (butlast (x # xs))"
      using chain_cons.IH by blast
    have bl: "butlast ps \<noteq> []" using two by (cases ps) auto
    have "last ps \<in> set ps" "last (butlast ps) \<in> set ps"
      using cq bl by (auto intro: in_set_butlastD)
    then have "p \<noteq> last ps" "p \<noteq> last (butlast ps)" using dist by auto
    moreover have "butlast (x # xs) \<noteq> []" using two cq by (cases xs) auto
    ultimately have "chain (store (h[last ps := None]) (last (butlast ps)) (l\<lparr>linkage := None\<rparr>)) p
                 (p # butlast ps) (r # butlast (x # xs))"
      using ch chain_cons.hyps(1) pv
      by (cases "butlast (x # xs)") (auto simp: heap_simps intro!: chain.chain_cons)
    with l bl show ?thesis
      using cq by (auto simp: butlast_append)
  qed
qed (simp_all)

lemma release_links_chain:
  "chain h p ps xs \<Longrightarrow>
     \<exists>h'. release_links h p = Some h' \<and> chain h' p [p] (take 1 xs) \<and>
       (\<forall>a\<in>set (tl ps). deref h' a = None) \<and> (\<forall>a. a \<notin> set ps \<longrightarrow> deref h' a = deref h a) \<and>
       length h' = length h"
proof (induction "length ps" arbitrary: h ps xs rule: less_induct)
  case less
  note c = less.prems
  have cs: "ps \<noteq> [] \<and> hd ps = p \<and> length ps = max 1 (length xs)"
    using chain_cells [OF c] by simp
  have dist: "distinct ps" using chain_distinct [OF c] .
  have ll: "last_link h p p = Some (last (p # butlast ps), last ps)"
    by (rule last_link_chain [OF c])
  show ?case
  proof (cases "length ps = 1")
    case True
    with cs have ps: "ps = [p]" and xs: "length xs \<le> 1"
      by (auto simp: length_Suc_conv)
    then have "release_links h p = Some h"
      using ll by (simp add: release_links.simps [of h p])
    with c ps xs show ?thesis by (auto simp: take_all)
  next
    case False
    with cs have two: "2 \<le> length ps" by (cases ps) auto
    then obtain l where l: "deref h (last (butlast ps)) = Some l"
      and c1: "chain (store (h[last ps := None]) (last (butlast ps)) (l\<lparr>linkage := None\<rparr>)) p
                 (butlast ps) (butlast xs)"
      using chain_drop_last [OF c] by blast
    define h1 where "h1 = store (h[last ps := None]) (last (butlast ps)) (l\<lparr>linkage := None\<rparr>)"
    have bl: "butlast ps \<noteq> []" using two by (cases ps) auto
    have prev: "last (p # butlast ps) = last (butlast ps)" using bl by simp
    have psd: "ps = butlast ps @ [last ps]" using cs by simp
    have nb: "last ps \<notin> set (butlast ps)"
      using dist psd by (metis distinct_append disjoint_iff list.set_intros(1))
    have "p \<in> set (butlast ps)" using cs bl psd by (metis hd_append2 hd_in_set)
    with nb have lp: "last ps \<noteq> p" by blast
    have step: "release_links h p = release_links h1 p"
      using ll lp l bl by (simp add: release_links.simps [of h p] h1_def)
    have "length (butlast ps) < length ps" using cs by simp
    then obtain h' where run: "release_links h1 p = Some h'"
      and ch: "chain h' p [p] (take 1 (butlast xs))"
      and fr1: "\<forall>a\<in>set (tl (butlast ps)). deref h' a = None"
      and fr2: "\<forall>a. a \<notin> set (butlast ps) \<longrightarrow> deref h' a = deref h1 a"
      and len: "length h' = length h1"
      using less.hyps c1 unfolding h1_def by blast
    have lx: "2 \<le> length xs" using two cs by simp
    then have "take 1 (butlast xs) = take 1 xs" by (simp add: take_butlast)
    moreover note nb
    moreover have "last ps \<noteq> last (butlast ps)"
      using nb bl by (metis last_in_set)
    moreover have "tl ps = tl (butlast ps) @ [last ps]"
      using bl psd by (metis tl_append2)
    then have "a \<in> set (tl ps) \<Longrightarrow> a = last ps \<or> a \<in> set (tl (butlast ps))" for a
      by auto
    moreover have "a \<notin> set ps \<Longrightarrow> a \<noteq> last ps \<and> a \<noteq> last (butlast ps) \<and> a \<notin> set (butlast ps)" for a
      using bl cs by (auto intro: in_set_butlastD)
    moreover have "deref h' (last ps) = None"
    proof -
      have "deref h' (last ps) = deref h1 (last ps)" using fr2 nb by blast
      also have "\<dots> = None"
        using \<open>last ps \<noteq> last (butlast ps)\<close> by (simp add: h1_def heap_simps)
      finally show ?thesis .
    qed
    ultimately have fa: "\<forall>a\<in>set (tl ps). deref h' a = None"
      using fr1 by blast
    have fb: "deref h' a = deref h a" if "a \<notin> set ps" for a
    proof -
      have "a \<noteq> last ps" "a \<noteq> last (butlast ps)" "a \<notin> set (butlast ps)"
        using that bl cs by (auto intro: in_set_butlastD)
      then show ?thesis using fr2 by (simp add: h1_def heap_simps)
    qed
    have "chain h' p [p] (take 1 xs)"
      using ch \<open>take 1 (butlast xs) = take 1 xs\<close> by simp
    with fa fb step run len show ?thesis
      by (simp add: h1_def heap_simps)
  qed
qed

text \<open>The removal functions never complete: the first iteration of their
  loop deletes the head link embedded in the object, which was not allocated
  with \<open>new\<close>; on a NULL object they do nothing.\<close>

lemma remove_walk_embedded: "embedded p \<Longrightarrow> remove_walk head embedded h p = None"
  by (simp add: remove_walk.simps [of head embedded h p] delete_link_def bind_eq_None_conv split: option.split)

lemma remove_children_embedded_head:
  "embedded (children a) \<Longrightarrow> remove_children children embedded h (Some a) = None"
  by (simp add: remove_children_def remove_walk_embedded)

lemma remove_parents_embedded_head:
  "embedded (parents a) \<Longrightarrow> remove_parents parents embedded h (Some a) = None"
  by (simp add: remove_parents_def remove_walk_embedded)

lemma remove_interfaces_embedded_head:
  "embedded (interfaces a) \<Longrightarrow> remove_interfaces interfaces embedded h (Some a) = None"
  by (simp add: remove_interfaces_def remove_walk_embedded)

text \<open>\<open>Release_clist\<close> ends when the registered objects own pairwise
  disjoint sets of cells; it then frees exactly those cells.\<close>

lemma owns_frame:
  "owns ch pa itf h a S \<Longrightarrow> \<forall>q\<in>S. deref h' q = deref h q \<Longrightarrow> owns ch pa itf h' a S"
  unfolding owns_def by (blast intro: chain_frame)

lemma chain_head: "chain h p ps xs \<Longrightarrow> p \<in> set ps"
  using chain_cells by (metis list.set_sel(1))

text \<open>Releasing one object: its cells are freed, nothing else changes.\<close>

lemma release_one:
  assumes "owns ch pa itf h a S"
  shows "\<exists>h'. Option.bind (release_links h (ch a)) (\<lambda>h1.
        Option.bind (release_links h1 (pa a)) (\<lambda>h2.
        Option.bind (release_links h2 (itf a)) (\<lambda>h3.
          Some (h3[ch a := None, pa a := None, itf a := None])))) = Some h' \<and>
     (\<forall>q\<in>S. deref h' q = None) \<and> (\<forall>q. q \<notin> S \<longrightarrow> deref h' q = deref h q)"
proof -
  obtain ps1 xs1 ps2 xs2 ps3 xs3 where c1: "chain h (ch a) ps1 xs1" and c2: "chain h (pa a) ps2 xs2"
    and c3: "chain h (itf a) ps3 xs3" and d: "set ps1 \<inter> set ps2 = {}" "set ps1 \<inter> set ps3 = {}" "set ps2 \<inter> set ps3 = {}"
    and S: "S = set ps1 \<union> set ps2 \<union> set ps3"
    using assms unfolding owns_def by blast
  obtain h1 where r1: "release_links h (ch a) = Some h1" and f1: "\<forall>q\<in>set (tl ps1). deref h1 q = None"
    and o1: "\<forall>q. q \<notin> set ps1 \<longrightarrow> deref h1 q = deref h q"
    using release_links_chain [OF c1] by blast
  have c2': "chain h1 (pa a) ps2 xs2" using c2 o1 d(1) by (blast intro: chain_frame)
  obtain h2 where r2: "release_links h1 (pa a) = Some h2" and f2: "\<forall>q\<in>set (tl ps2). deref h2 q = None"
    and o2: "\<forall>q. q \<notin> set ps2 \<longrightarrow> deref h2 q = deref h1 q"
    using release_links_chain [OF c2'] by blast
  have "\<forall>q\<in>set ps3. deref h2 q = deref h q"
  proof
    fix q assume "q \<in> set ps3"
    then have "q \<notin> set ps1" "q \<notin> set ps2" using d(2,3) by blast+
    then show "deref h2 q = deref h q" using o1 o2 by simp
  qed
  then have c3': "chain h2 (itf a) ps3 xs3" by (rule chain_frame [OF c3])
  obtain h3 where r3: "release_links h2 (itf a) = Some h3" and f3: "\<forall>q\<in>set (tl ps3). deref h3 q = None"
    and o3: "\<forall>q. q \<notin> set ps3 \<longrightarrow> deref h3 q = deref h2 q"
    using release_links_chain [OF c3'] by blast
  let ?h = "h3[ch a := None, pa a := None, itf a := None]"
  have hd: "ch a \<in> set ps1" "pa a \<in> set ps2" "itf a \<in> set ps3"
    using c1 c2 c3 by (simp_all add: chain_head)
  have tl: "q \<in> set ps \<Longrightarrow> q = hd ps \<or> q \<in> set (tl ps)" for q and ps :: "lptr list"
    by (cases ps) auto
  have hds: "hd ps1 = ch a" "hd ps2 = pa a" "hd ps3 = itf a" using c1 c2 c3 chain_cells by blast+
  have "deref ?h q = None" if "q \<in> S" for q
  proof -
    have "q = ch a \<or> q = pa a \<or> q = itf a \<or> q \<in> set (tl ps1) \<or> q \<in> set (tl ps2) \<or> q \<in> set (tl ps3)"
      using that S tl hds by blast
    moreover have "q \<in> set (tl ps1) \<Longrightarrow> deref h3 q = None"
      using f1 o2 o3 d by (metis disjoint_iff list.set_sel(2) tl_Nil)
    moreover have "q \<in> set (tl ps2) \<Longrightarrow> deref h3 q = None"
      using f2 o3 d by (metis disjoint_iff list.set_sel(2) tl_Nil)
    ultimately show ?thesis using f3 by (auto simp: heap_simps)
  qed
  moreover have "deref ?h q = deref h q" if "q \<notin> S" for q
    using that S hd o1 o2 o3 by (auto simp: heap_simps)
  ultimately show ?thesis using r1 r2 r3 by auto
qed


lemma fold_bind_None: "fold (\<lambda>a r. Option.bind r (f a)) xs None = None"
  by (induction xs) auto

lemma release_clist_Cons:
  "release_clist ch pa itf h (a # crels) =
     Option.bind (Option.bind (release_links h (ch a)) (\<lambda>h1.
        Option.bind (release_links h1 (pa a)) (\<lambda>h2.
        Option.bind (release_links h2 (itf a)) (\<lambda>h3.
          Some (h3[ch a := None, pa a := None, itf a := None])))))
       (\<lambda>h'. release_clist ch pa itf h' crels)"
  by (cases "Option.bind (release_links h (ch a)) (\<lambda>h1.
        Option.bind (release_links h1 (pa a)) (\<lambda>h2.
        Option.bind (release_links h2 (itf a)) (\<lambda>h3.
          Some (h3[ch a := None, pa a := None, itf a := None]))))")
     (simp_all add: release_clist_def fold_bind_None)

lemma release_clist_frees:
  "\<forall>a\<in>set crels. owns ch pa itf h a (S a) \<Longrightarrow>
   \<forall>a\<in>set crels. \<forall>b\<in>set crels. a \<noteq> b \<longrightarrow> S a \<inter> S b = {} \<Longrightarrow> distinct crels \<Longrightarrow>
   \<exists>h'. release_clist ch pa itf h crels = Some h' \<and> (\<forall>a\<in>set crels. \<forall>q\<in>S a. deref h' q = None) \<and>
     (\<forall>q. (\<forall>a\<in>set crels. q \<notin> S a) \<longrightarrow> deref h' q = deref h q)"
proof (induction crels arbitrary: h)
  case Nil
  then show ?case by (simp add: release_clist_def)
next
  case (Cons a crels)
  obtain h1 where r1: "Option.bind (release_links h (ch a)) (\<lambda>h1.
        Option.bind (release_links h1 (pa a)) (\<lambda>h2.
        Option.bind (release_links h2 (itf a)) (\<lambda>h3.
          Some (h3[ch a := None, pa a := None, itf a := None])))) = Some h1"
    and f1: "\<forall>q\<in>S a. deref h1 q = None" and o1: "\<forall>q. q \<notin> S a \<longrightarrow> deref h1 q = deref h q"
    using release_one [of ch pa itf h a "S a"] Cons.prems(1) by auto
  have "\<forall>b\<in>set crels. owns ch pa itf h1 b (S b)"
  proof
    fix b assume b: "b \<in> set crels"
    then have "S a \<inter> S b = {}" using Cons.prems(2,3) by auto
    then have "\<forall>q\<in>S b. deref h1 q = deref h q" using o1 by blast
    then show "owns ch pa itf h1 b (S b)" using owns_frame [of ch pa itf h b "S b" h1] Cons.prems(1) b by simp
  qed
  then have "\<exists>h'. release_clist ch pa itf h1 crels = Some h' \<and>
      (\<forall>b\<in>set crels. \<forall>q\<in>S b. deref h' q = None) \<and>
      (\<forall>q. (\<forall>b\<in>set crels. q \<notin> S b) \<longrightarrow> deref h' q = deref h1 q)"
    using Cons.prems(2,3) by (intro Cons.IH) auto
  then obtain h' where r: "release_clist ch pa itf h1 crels = Some h'"
    and f: "\<forall>b\<in>set crels. \<forall>q\<in>S b. deref h' q = None"
    and o: "\<forall>q. (\<forall>b\<in>set crels. q \<notin> S b) \<longrightarrow> deref h' q = deref h1 q"
    by (elim exE conjE)
  have "\<forall>q\<in>S a. deref h' q = None"
  proof
    fix q assume q: "q \<in> S a"
    then have "\<forall>b\<in>set crels. q \<notin> S b" using Cons.prems(2,3) by auto
    then show "deref h' q = None" using o f1 q by simp
  qed
  moreover have "release_clist ch pa itf h (a # crels) = Some h'"
    by (simp add: release_clist_Cons r1 r)
  moreover have "deref h' q = deref h q" if "\<forall>b\<in>set (a # crels). q \<notin> S b" for q
    using that o o1 by simp
  ultimately show ?case using f by auto
qed

subsection \<open>Properties\<close>

text \<open>C11: on a well-formed chain, \<open>add_linkage_to\<close> ends, and the chain
  afterwards holds the objects before it with \<open>crel_ptr\<close> appended unless it
  was already present; a chain without duplicates stays without duplicates.\<close>

theorem add_linkage_to_dedup:
  assumes "chain h p ps xs" and "distinct xs"
  shows "\<exists>h' ps'. add_linkage_to h p c = Some h' \<and> chain h' p ps' (add_linkage xs c) \<and>
           distinct (add_linkage xs c) \<and> set (add_linkage xs c) = insert c (set xs) \<and>
           take (length xs) (add_linkage xs c) = xs"
proof -
  obtain h' ps' where "add_linkage_to h p c = Some h'" "chain h' p ps' (add_linkage xs c)"
    using add_linkage_to_chain [OF assms(1)] by blast
  moreover have "distinct (add_linkage xs c)" "set (add_linkage xs c) = insert c (set xs)"
    "take (length xs) (add_linkage xs c) = xs"
    using assms(2) by (auto simp: add_linkage_def)
  ultimately show ?thesis by blast
qed

text \<open>C12: on a well-formed chain, \<open>find_relation\<close> ends and returns NULL
  exactly when the object is not on the chain, and otherwise a link of the
  chain that holds it.\<close>

theorem find_relation_finds:
  "chain h p ps xs \<Longrightarrow>
     \<exists>r. find_relation h (Some p) (Some c) = Some r \<and> (r = None \<longleftrightarrow> c \<notin> set xs) \<and>
       (\<forall>a. r = Some a \<longrightarrow> a \<in> set ps \<and> (\<exists>l. deref h a = Some l \<and> relations l = Some c))"
  by (rule find_relation_chain)

text \<open>C13: on a well-formed chain, \<open>release_links\<close> ends; it frees every
  link but the first, leaves the first without successor but still holding
  its object, and touches no other cell.\<close>

theorem release_links_terminates:
  "chain h p ps xs \<Longrightarrow>
     \<exists>h'. release_links h p = Some h' \<and> chain h' p [p] (take 1 xs) \<and>
       (\<forall>a\<in>set (tl ps). deref h' a = None) \<and> (\<forall>a. a \<notin> set ps \<longrightarrow> deref h' a = deref h a)"
  using release_links_chain by blast

subsection \<open>Witnesses\<close>

definition two_links :: lheap where
  "two_links = [Some \<lparr>linkage = Some 1, relations = Some 5\<rparr>, Some \<lparr>linkage = None, relations = Some 7\<rparr>]"

lemma two_links_chain: "chain two_links 0 [0, 1] [5, 7]"
  by (auto simp: two_links_def deref_def intro!: chain.intros)

theorem add_linkage_to_dedup_witness:
  "chain two_links 0 [0, 1] [5, 7] \<and> distinct [5::addr, 7] \<and>
   (\<exists>h' ps'. add_linkage_to two_links 0 9 = Some h' \<and> chain h' 0 ps' [5, 7, 9])"
  using add_linkage_to_dedup [OF two_links_chain, of 9] two_links_chain
  by (auto simp: add_linkage_def)

theorem find_relation_finds_witness:
  "chain two_links 0 [0, 1] [5, 7] \<and> find_relation two_links (Some 0) (Some 7) \<noteq> Some None"
  using find_relation_finds [OF two_links_chain, of 7] two_links_chain by auto

theorem release_links_terminates_witness:
  "chain two_links 0 [0, 1] [5, 7] \<and>
   (\<exists>h'. release_links two_links 0 = Some h' \<and> chain h' 0 [0] [5] \<and> deref h' 1 = None)"
  using release_links_terminates [OF two_links_chain] two_links_chain by auto

end
