(* ===== verification/Graph.thy ===== *)
theory Graph
  imports Linkage
begin

text \<open>
  The relation graph of javatree.cpp: the objects of class \<open>ClassRelations\<close>
  (class_rel.h) in an object store indexed by \<open>addr\<close> (allocation with
  \<open>new\<close> appends), and the registry \<open>ClassList clist\<close>, a
  \<open>std::map<lstring, ClassRelations*>\<close>, as an association list sorted by
  key, the order in which \<open>std::map\<close> iterates.  The three edge chains of an
  object are the object lists they hold; theory \<open>Linkage\<close> shows that the
  pointer-level \<open>add_linkage_to\<close> implements \<open>add_linkage\<close> on them.  The
  operations are \<open>AddClass\<close>, \<open>add_parent\<close> and the \<open>implements\<close> branch of
  \<open>FindClassDefsInFile\<close>, which allocates a fresh interface object per token.
\<close>

record class_rel =
  my_name :: string
  my_modifier :: string
  my_file :: string
  my_children :: "addr list"
  my_parents :: "addr list"
  my_interfaces :: "addr list"

text \<open>\<open>ClassRelations(name, modifier, file)\<close>: three empty chains.\<close>

definition new_class_rel :: "string \<Rightarrow> string \<Rightarrow> string \<Rightarrow> class_rel" where
  "new_class_rel n m f =
     \<lparr>my_name = n, my_modifier = m, my_file = f, my_children = [], my_parents = [], my_interfaces = []\<rparr>"

record graph =
  clist :: "(string \<times> addr) list"
  objs :: "class_rel list"

definition empty_graph :: graph where
  "empty_graph = \<lparr>clist = [], objs = []\<rparr>"

text \<open>\<open>std::map::insert\<close>: a key already present keeps its value.\<close>

fun map_insert :: "string \<Rightarrow> addr \<Rightarrow> (string \<times> addr) list \<Rightarrow> (string \<times> addr) list" where
  "map_insert k v [] = [(k, v)]"
| "map_insert k v ((k', v') # m) =
     (if k < k' then (k, v) # (k', v') # m
      else if k = k' then (k', v') # m
      else (k', v') # map_insert k v m)"

text \<open>A member function called through \<open>ClassRelations* p\<close>.\<close>

definition upd_obj :: "addr \<Rightarrow> (class_rel \<Rightarrow> class_rel) \<Rightarrow> graph \<Rightarrow> graph" where
  "upd_obj p f g = g\<lparr>objs := (objs g)[p := f (objs g ! p)]\<rparr>"

text \<open>\<open>AddClass(class_name, class_modifier, filename)\<close>: a name not yet in
  \<open>clist\<close> gets a new object; a known one only has its file overwritten.\<close>

definition AddClass :: "string \<Rightarrow> string \<Rightarrow> string \<Rightarrow> graph \<Rightarrow> addr \<times> graph" where
  "AddClass class_name class_modifier filename g =
     (case map_of (clist g) class_name of
        None \<Rightarrow>
          (let p = length (objs g)
           in (p, g\<lparr>objs := objs g @ [new_class_rel class_name class_modifier filename],
                    clist := map_insert class_name p (clist g)\<rparr>))
      | Some p \<Rightarrow> (p, upd_obj p (\<lambda>c. c\<lparr>my_file := filename\<rparr>) g))"

text \<open>\<open>add_parent(pChild, parents_name, filename)\<close>.\<close>

definition add_parent :: "addr \<Rightarrow> string \<Rightarrow> string \<Rightarrow> graph \<Rightarrow> graph" where
  "add_parent pChild parents_name filename g =
     (let (pSuper, g1) = AddClass parents_name '''' filename g;
          g2 = upd_obj pChild (\<lambda>c. c\<lparr>my_parents := add_linkage (my_parents c) pSuper\<rparr>) g1
      in upd_obj pSuper (\<lambda>c. c\<lparr>my_children := add_linkage (my_children c) pChild\<rparr>) g2)"

text \<open>\<open>crel_ptr->add_interface(new ClassRelations(token, "interface",
  "_no_file_"))\<close> (javatree.cpp, \<open>FindClassDefsInFile\<close>): the interface object
  is allocated afresh and is not entered in \<open>clist\<close>.\<close>

definition add_implements :: "addr \<Rightarrow> string \<Rightarrow> graph \<Rightarrow> graph" where
  "add_implements crel token g =
     (let q = length (objs g);
          g1 = g\<lparr>objs := objs g @ [new_class_rel token ''interface'' ''_no_file_'']\<rparr>
      in upd_obj crel (\<lambda>c. c\<lparr>my_interfaces := add_linkage (my_interfaces c) q\<rparr>) g1)"

text \<open>The roots that \<open>display_dependences\<close> renders: the objects of
  \<open>clist\<close>, in its iteration order, whose parent chain is empty
  (\<open>parents().relations == NULL\<close>).\<close>

definition roots :: "graph \<Rightarrow> addr list" where
  "roots g = [p. (k, p) \<leftarrow> clist g, my_parents (objs g ! p) = []]"

subsection \<open>Operations and reachable graphs\<close>

datatype graph_op =
    OpAddClass string string string
  | OpAddParent addr string string
  | OpImplements addr string

definition registered :: "graph \<Rightarrow> addr \<Rightarrow> bool" where
  "registered g p \<longleftrightarrow> p \<in> snd ` set (clist g)"

fun graph_step :: "graph_op \<Rightarrow> graph \<Rightarrow> graph" where
  "graph_step (OpAddClass n m f) g = snd (AddClass n m f g)"
| "graph_step (OpAddParent c n f) g = add_parent c n f g"
| "graph_step (OpImplements c t) g = add_implements c t g"

text \<open>\<open>FindClassDefsInFile\<close> applies \<open>add_parent\<close> and \<open>add_interface\<close>
  only to the object \<open>crel_ptr\<close> that \<open>AddClass\<close> returned.\<close>

fun op_ok :: "graph \<Rightarrow> graph_op \<Rightarrow> bool" where
  "op_ok g (OpAddClass n m f) = True"
| "op_ok g (OpAddParent c n f) = registered g c"
| "op_ok g (OpImplements c t) = registered g c"

inductive reachable :: "graph \<Rightarrow> bool" where
  reachable_empty: "reachable empty_graph"
| reachable_step: "reachable g \<Longrightarrow> op_ok g op \<Longrightarrow> reachable (graph_step op g)"

subsection \<open>Well-formedness\<close>

definition registry_ok :: "graph \<Rightarrow> bool" where
  "registry_ok g \<longleftrightarrow>
     sorted_wrt (<) (map fst (clist g)) \<and> distinct (map snd (clist g)) \<and>
     (\<forall>(k, p)\<in>set (clist g). p < length (objs g) \<and> my_name (objs g ! p) = k)"

definition edges_ok :: "graph \<Rightarrow> bool" where
  "edges_ok g \<longleftrightarrow>
     (\<forall>i < length (objs g).
        distinct (my_children (objs g ! i)) \<and> distinct (my_parents (objs g ! i)) \<and>
        distinct (my_interfaces (objs g ! i)) \<and>
        (\<forall>q\<in>set (my_children (objs g ! i)) \<union> set (my_parents (objs g ! i)). registered g q) \<and>
        (\<forall>q\<in>set (my_interfaces (objs g ! i)). q < length (objs g) \<and> \<not> registered g q))"

definition sym_ok :: "graph \<Rightarrow> bool" where
  "sym_ok g \<longleftrightarrow>
     (\<forall>p < length (objs g). \<forall>q < length (objs g).
        q \<in> set (my_parents (objs g ! p)) \<longleftrightarrow> p \<in> set (my_children (objs g ! q)))"

definition graph_wf :: "graph \<Rightarrow> bool" where
  "graph_wf g \<longleftrightarrow> registry_ok g \<and> edges_ok g \<and> sym_ok g"

text \<open>The operations \<open>FindClassDefsInFile\<close> performs for the line
  \<open>public class A extends B implements I1, I2 {\<close> of A.java.\<close>

definition ab_ops :: "graph_op list" where
  "ab_ops = [OpAddClass ''A'' ''public '' ''A.java'', OpAddParent 0 ''B'' ''_no_file_'',
             OpImplements 0 ''I1'', OpImplements 0 ''I2'']"

subsection \<open>Registry lemmas\<close>

lemma map_of_map_insert:
  "map_of m k = None \<Longrightarrow> map_of (map_insert k v m) = (map_of m)(k \<mapsto> v)"
  by (induction k v m rule: map_insert.induct) (auto simp: fun_eq_iff)

lemma set_map_insert:
  "map_of m k = None \<Longrightarrow> set (map_insert k v m) = insert (k, v) (set m)"
  by (induction k v m rule: map_insert.induct) auto

lemma set_map_insert_keys:
  "fst ` set (map_insert k v m) = insert k (fst ` set m)"
  by (induction k v m rule: map_insert.induct) auto

lemma sorted_map_insert:
  "sorted_wrt (<) (map fst m) \<Longrightarrow> sorted_wrt (<) (map fst (map_insert k v m))"
proof (induction k v m rule: map_insert.induct)
  case (2 k v k' v' m)
  have "\<forall>x\<in>fst ` set (map_insert k v m). k' < x" if "k' < k"
    using "2.prems" that by (auto simp: set_map_insert_keys)
  with 2 show ?case by (auto simp: set_map_insert_keys)
qed simp

lemma sorted_keys_distinct:
  "sorted_wrt (<) (map fst (m :: (string \<times> addr) list)) \<Longrightarrow> distinct (map fst m)"
  by (simp add: strict_sorted_iff)

subsection \<open>Object store lemmas\<close>

lemma length_objs_upd [simp]: "length (objs (upd_obj p f g)) = length (objs g)"
  by (simp add: upd_obj_def)

lemma clist_upd [simp]: "clist (upd_obj p f g) = clist g"
  by (simp add: upd_obj_def)

lemma objs_upd_nth [simp]:
  "p < length (objs g) \<Longrightarrow>
     objs (upd_obj p f g) ! q = (if q = p then f (objs g ! p) else objs g ! q)"
  by (simp add: upd_obj_def nth_list_update)

lemma registered_upd [simp]: "registered (upd_obj p f g) = registered g"
  by (simp add: registered_def fun_eq_iff)

lemma set_add_linkage [simp]: "set (add_linkage xs c) = insert c (set xs)"
  by (auto simp: add_linkage_def)

lemma distinct_add_linkage [simp]: "distinct (add_linkage xs c) = distinct xs"
  by (auto simp: add_linkage_def)

lemma registered_valid:
  "registry_ok g \<Longrightarrow> registered g q \<Longrightarrow> q < length (objs g)"
  by (auto simp: registry_ok_def registered_def)

text \<open>The invariant only reads the registry, the names and the edge lists.\<close>

lemma graph_wf_upd_same:
  assumes "p < length (objs g)"
    and "my_name (f (objs g ! p)) = my_name (objs g ! p)"
    and "my_children (f (objs g ! p)) = my_children (objs g ! p)"
    and "my_parents (f (objs g ! p)) = my_parents (objs g ! p)"
    and "my_interfaces (f (objs g ! p)) = my_interfaces (objs g ! p)"
  shows "graph_wf (upd_obj p f g) = graph_wf g"
proof -
  have n: "\<And>i. my_name (objs (upd_obj p f g) ! i) = my_name (objs g ! i)"
    and c: "\<And>i. my_children (objs (upd_obj p f g) ! i) = my_children (objs g ! i)"
    and pa: "\<And>i. my_parents (objs (upd_obj p f g) ! i) = my_parents (objs g ! i)"
    and it: "\<And>i. my_interfaces (objs (upd_obj p f g) ! i) = my_interfaces (objs g ! i)"
    using assms by simp_all
  show ?thesis
    unfolding graph_wf_def registry_ok_def edges_ok_def sym_ok_def
    by (simp only: n c pa it length_objs_upd clist_upd registered_upd)
qed


lemma distinct_snd_map_insert:
  "map_of m k = None \<Longrightarrow> v \<notin> snd ` set m \<Longrightarrow> distinct (map snd m) \<Longrightarrow>
     distinct (map snd (map_insert k v m))"
  by (induction k v m rule: map_insert.induct) (auto simp: set_map_insert)

lemma registry_snd_valid:
  "registry_ok g \<Longrightarrow> (k, p) \<in> set (clist g) \<Longrightarrow> p < length (objs g)"
  by (auto simp: registry_ok_def)

lemma AddClass_known:
  "map_of (clist g) n = Some p \<Longrightarrow> AddClass n m f g = (p, upd_obj p (\<lambda>c. c\<lparr>my_file := f\<rparr>) g)"
  by (simp add: AddClass_def)

lemma AddClass_fresh:
  "map_of (clist g) n = None \<Longrightarrow>
     AddClass n m f g = (length (objs g), g\<lparr>objs := objs g @ [new_class_rel n m f],
                                           clist := map_insert n (length (objs g)) (clist g)\<rparr>)"
  by (simp add: AddClass_def Let_def)

lemma graph_wf_fresh:
  assumes wf: "graph_wf g" and none: "map_of (clist g) n = None"
  shows "graph_wf (g\<lparr>objs := objs g @ [new_class_rel n m f],
                     clist := map_insert n (length (objs g)) (clist g)\<rparr>)" (is "graph_wf ?g")
proof -
  let ?N = "length (objs g)"
  have reg: "registered ?g q \<longleftrightarrow> registered g q \<or> q = ?N" for q
    using none by (auto simp: registered_def set_map_insert)
  have nth: "objs ?g ! i = (if i < ?N then objs g ! i else new_class_rel n m f)" if "i < Suc ?N" for i
    using that by (simp add: nth_append)
  have ro: "registry_ok g" and eo: "edges_ok g" and so: "sym_ok g"
    using wf by (simp_all add: graph_wf_def)
  have small: "registered g q \<Longrightarrow> q < ?N" for q using registered_valid [OF ro] .
  have "registry_ok ?g"
  proof -
    have "?N \<notin> snd ` set (clist g)" using ro by (auto simp: registry_ok_def)
    then have "distinct (map snd (clist ?g))"
      using ro none by (auto simp: registry_ok_def intro: distinct_snd_map_insert)
    moreover have "sorted_wrt (<) (map fst (clist ?g))"
      using ro by (simp add: registry_ok_def sorted_map_insert)
    moreover have "\<forall>(k, p)\<in>set (clist ?g). p < length (objs ?g) \<and> my_name (objs ?g ! p) = k"
      using ro none by (auto simp: registry_ok_def set_map_insert nth_append new_class_rel_def)
    ultimately show ?thesis by (simp add: registry_ok_def)
  qed
  moreover have "edges_ok ?g"
    unfolding edges_ok_def
  proof (intro allI impI)
    fix i assume i: "i < length (objs ?g)"
    show "distinct (my_children (objs ?g ! i)) \<and> distinct (my_parents (objs ?g ! i)) \<and>
        distinct (my_interfaces (objs ?g ! i)) \<and>
        (\<forall>q\<in>set (my_children (objs ?g ! i)) \<union> set (my_parents (objs ?g ! i)). registered ?g q) \<and>
        (\<forall>q\<in>set (my_interfaces (objs ?g ! i)). q < length (objs ?g) \<and> \<not> registered ?g q)"
    proof (cases "i < ?N")
      case True
      then have e: "objs ?g ! i = objs g ! i" by (simp add: nth_append)
      from eo True have "distinct (my_children (objs g ! i)) \<and> distinct (my_parents (objs g ! i)) \<and>
        distinct (my_interfaces (objs g ! i)) \<and>
        (\<forall>q\<in>set (my_children (objs g ! i)) \<union> set (my_parents (objs g ! i)). registered g q) \<and>
        (\<forall>q\<in>set (my_interfaces (objs g ! i)). q < ?N \<and> \<not> registered g q)"
        by (simp add: edges_ok_def)
      then show ?thesis unfolding e by (auto simp: reg)
    next
      case False
      with i have "objs ?g ! i = new_class_rel n m f" by (simp add: nth_append)
      then show ?thesis by (simp add: new_class_rel_def)
    qed
  qed
  moreover have "sym_ok ?g"
    unfolding sym_ok_def
  proof (intro allI impI)
    fix p q assume p: "p < length (objs ?g)" and q: "q < length (objs ?g)"
    consider "p < ?N" "q < ?N" | "p = ?N" | "q = ?N" using p q by fastforce
    then show "q \<in> set (my_parents (objs ?g ! p)) \<longleftrightarrow> p \<in> set (my_children (objs ?g ! q))"
    proof cases
      case 1
      with so show ?thesis by (simp add: sym_ok_def nth_append)
    next
      case 2
      have "?N \<notin> set (my_children (objs g ! q))" if "q < ?N"
        using eo that by (fastforce simp: edges_ok_def dest: small)
      with 2 q show ?thesis by (auto simp: nth_append new_class_rel_def)
    next
      case 3
      have "?N \<notin> set (my_parents (objs g ! p))" if "p < ?N"
        using eo that by (fastforce simp: edges_ok_def dest: small)
      with 3 p show ?thesis by (auto simp: nth_append new_class_rel_def)
    qed
  qed
  ultimately show ?thesis by (simp add: graph_wf_def)
qed


lemma AddClass_wf: "graph_wf g \<Longrightarrow> graph_wf (snd (AddClass n m f g))"
proof (cases "map_of (clist g) n")
  case None
  assume "graph_wf g"
  with None show ?thesis by (simp add: AddClass_fresh graph_wf_fresh)
next
  case (Some p)
  assume wf: "graph_wf g"
  then have "p < length (objs g)"
    using Some by (auto simp: graph_wf_def registry_ok_def dest!: map_of_SomeD)
  with wf Some show ?thesis by (simp add: AddClass_known graph_wf_upd_same)
qed

lemma AddClass_result:
  assumes "graph_wf g" and "AddClass n m f g = (p, g')"
  shows "map_of (clist g') n = Some p \<and> registered g' p \<and> p < length (objs g') \<and>
    my_name (objs g' ! p) = n \<and> my_file (objs g' ! p) = f \<and>
    (\<forall>q. registered g q \<longrightarrow> registered g' q)"
proof (cases "map_of (clist g) n")
  case None
  with assms show ?thesis
    by (auto simp: AddClass_fresh map_of_map_insert registered_def set_map_insert nth_append
        new_class_rel_def)
next
  case (Some q)
  then have mem: "(n, q) \<in> set (clist g)" by (rule map_of_SomeD)
  with assms(1) have "q < length (objs g)" "my_name (objs g ! q) = n"
    by (auto simp: graph_wf_def registry_ok_def)
  moreover have "q \<in> snd ` set (clist g)" using mem by force
  ultimately show ?thesis
    using Some assms(2) by (auto simp: AddClass_known registered_def)
qed

lemma add_parent_unfold:
  assumes "AddClass parents_name '''' filename g = (s, g1)"
  shows "add_parent c parents_name filename g =
    upd_obj s (\<lambda>x. x\<lparr>my_children := add_linkage (my_children x) c\<rparr>)
      (upd_obj c (\<lambda>x. x\<lparr>my_parents := add_linkage (my_parents x) s\<rparr>) g1)"
  using assms by (simp add: add_parent_def)

lemma add_parent_wf:
  assumes wf: "graph_wf g" and rc: "registered g c"
  shows "graph_wf (add_parent c n f g)"
proof -
  obtain s g1 where ac: "AddClass n '''' f g = (s, g1)" by (cases "AddClass n '''' f g")
  have wf1: "graph_wf g1" using AddClass_wf [OF wf, of n "''''" f] ac by simp
  have r1: "registered g1 s" and rc1: "registered g1 c"
    using AddClass_result [OF wf ac] rc by auto
  have ro: "registry_ok g1" and eo: "edges_ok g1" and so: "sym_ok g1"
    using wf1 by (simp_all add: graph_wf_def)
  have sv: "s < length (objs g1)" and cv: "c < length (objs g1)"
    using registered_valid [OF ro] r1 rc1 by auto
  define g3 where "g3 = add_parent c n f g"
  have g3: "g3 = upd_obj s (\<lambda>x. x\<lparr>my_children := add_linkage (my_children x) c\<rparr>)
      (upd_obj c (\<lambda>x. x\<lparr>my_parents := add_linkage (my_parents x) s\<rparr>) g1)"
    unfolding g3_def by (rule add_parent_unfold [OF ac])
  have len: "length (objs g3) = length (objs g1)" and cl: "clist g3 = clist g1"
    and reg: "registered g3 = registered g1"
    by (simp_all add: g3)
  have fields: "my_name (objs g3 ! i) = my_name (objs g1 ! i) \<and>
      my_interfaces (objs g3 ! i) = my_interfaces (objs g1 ! i) \<and>
      my_parents (objs g3 ! i) = (if i = c then add_linkage (my_parents (objs g1 ! i)) s
                                  else my_parents (objs g1 ! i)) \<and>
      my_children (objs g3 ! i) = (if i = s then add_linkage (my_children (objs g1 ! i)) c
                                   else my_children (objs g1 ! i))" for i
    using sv cv by (simp add: g3)
  have "registry_ok g3"
    using ro by (simp add: registry_ok_def len cl fields)
  moreover have "edges_ok g3"
    using eo r1 rc1 by (simp add: edges_ok_def len reg fields)
  moreover have "sym_ok g3"
    using so by (auto simp: sym_ok_def len fields)
  ultimately show ?thesis by (simp add: graph_wf_def g3_def)
qed


lemma add_implements_objs:
  assumes "c < length (objs g)"
  shows "objs (add_implements c t g) =
    (objs g)[c := (objs g ! c)\<lparr>my_interfaces := add_linkage (my_interfaces (objs g ! c)) (length (objs g))\<rparr>]
      @ [new_class_rel t ''interface'' ''_no_file_'']"
  using assms by (simp add: add_implements_def upd_obj_def list_update_append nth_append)

lemma add_implements_clist [simp]: "clist (add_implements c t g) = clist g"
  by (simp add: add_implements_def)

lemma registered_add_implements [simp]: "registered (add_implements c t g) = registered g"
  by (simp add: registered_def [abs_def])


lemma add_implements_wf:
  assumes wf: "graph_wf g" and rc: "registered g c"
  shows "graph_wf (add_implements c t g)"
proof -
  let ?N = "length (objs g)" and ?g' = "add_implements c t g"
  have ro: "registry_ok g" and eo: "edges_ok g" and so: "sym_ok g"
    using wf by (simp_all add: graph_wf_def)
  have cv: "c < ?N" using registered_valid [OF ro rc] .
  have small: "registered g q \<Longrightarrow> q < ?N" for q using registered_valid [OF ro] .
  have len: "length (objs ?g') = Suc ?N" by (simp add: add_implements_objs [OF cv])
  have nth: "objs ?g' ! i = (if i < ?N then (if i = c then (objs g ! c)\<lparr>my_interfaces :=
      add_linkage (my_interfaces (objs g ! c)) ?N\<rparr> else objs g ! i)
      else new_class_rel t ''interface'' ''_no_file_'')" if "i < Suc ?N" for i
    using that cv by (simp add: add_implements_objs [OF cv] nth_append)
  have old: "my_name (objs ?g' ! i) = my_name (objs g ! i) \<and>
      my_parents (objs ?g' ! i) = my_parents (objs g ! i) \<and>
      my_children (objs ?g' ! i) = my_children (objs g ! i)" if "i < ?N" for i
    using nth [of i] that by simp
  have new: "my_parents (objs ?g' ! ?N) = [] \<and> my_children (objs ?g' ! ?N) = [] \<and>
      my_interfaces (objs ?g' ! ?N) = []"
    using nth [of ?N] by (simp add: new_class_rel_def)
  have ifs: "my_interfaces (objs ?g' ! i) =
      (if i = c then add_linkage (my_interfaces (objs g ! i)) ?N else my_interfaces (objs g ! i))"
    if "i < ?N" for i
    using nth [of i] that by simp
  have "registry_ok ?g'"
    using ro old len unfolding registry_ok_def by (fastforce simp: less_SucI)
  moreover have "edges_ok ?g'"
    unfolding edges_ok_def len registered_add_implements
  proof (intro allI impI)
    fix i assume i: "i < Suc ?N"
    show "distinct (my_children (objs ?g' ! i)) \<and> distinct (my_parents (objs ?g' ! i)) \<and>
        distinct (my_interfaces (objs ?g' ! i)) \<and>
        (\<forall>q\<in>set (my_children (objs ?g' ! i)) \<union> set (my_parents (objs ?g' ! i)). registered g q) \<and>
        (\<forall>q\<in>set (my_interfaces (objs ?g' ! i)). q < Suc ?N \<and> \<not> registered g q)"
    proof (cases "i < ?N")
      case True
      have e: "distinct (my_children (objs g ! i)) \<and> distinct (my_parents (objs g ! i)) \<and>
        distinct (my_interfaces (objs g ! i)) \<and>
        (\<forall>q\<in>set (my_children (objs g ! i)) \<union> set (my_parents (objs g ! i)). registered g q) \<and>
        (\<forall>q\<in>set (my_interfaces (objs g ! i)). q < ?N \<and> \<not> registered g q)"
        using eo True by (simp add: edges_ok_def)
      have "\<not> registered g ?N" using small by blast
      with e show ?thesis using old [OF True] ifs [OF True] by auto
    next
      case False
      with i have "i = ?N" by simp
      with new show ?thesis by simp
    qed
  qed
  moreover have "sym_ok ?g'"
    unfolding sym_ok_def len
  proof (intro allI impI)
    fix p q assume p: "p < Suc ?N" and q: "q < Suc ?N"
    consider "p < ?N" "q < ?N" | "p = ?N" | "q = ?N" using p q by fastforce
    then show "q \<in> set (my_parents (objs ?g' ! p)) \<longleftrightarrow> p \<in> set (my_children (objs ?g' ! q))"
    proof cases
      case 1
      with so old show ?thesis by (simp add: sym_ok_def)
    next
      case 2
      show ?thesis
      proof (cases "q < ?N")
        case True
        have "\<forall>x\<in>set (my_children (objs g ! q)). registered g x"
          using eo True by (simp add: edges_ok_def)
        then have "?N \<notin> set (my_children (objs g ! q))" using small by blast
        with 2 True new old [OF True] show ?thesis by simp
      next
        case False
        with q have "q = ?N" by simp
        with 2 new show ?thesis by simp
      qed
    next
      case 3
      show ?thesis
      proof (cases "p < ?N")
        case True
        have "\<forall>x\<in>set (my_parents (objs g ! p)). registered g x"
          using eo True by (simp add: edges_ok_def)
        then have "?N \<notin> set (my_parents (objs g ! p))" using small by blast
        with 3 True new old [OF True] show ?thesis by simp
      next
        case False
        with p have "p = ?N" by simp
        with 3 new show ?thesis by simp
      qed
    qed
  qed
  ultimately show ?thesis by (simp add: graph_wf_def)
qed

lemma graph_step_wf: "graph_wf g \<Longrightarrow> op_ok g op \<Longrightarrow> graph_wf (graph_step op g)"
  by (cases op) (simp_all add: AddClass_wf add_parent_wf add_implements_wf)

lemma graph_wf_empty: "graph_wf empty_graph"
  by (simp add: graph_wf_def registry_ok_def edges_ok_def sym_ok_def empty_graph_def)

lemma upd_obj_id: "f (objs g ! p) = objs g ! p \<Longrightarrow> upd_obj p f g = g"
  by (simp add: upd_obj_def)

lemma add_parent_result:
  assumes wf: "graph_wf g" and rc: "registered g c"
  obtains s where "map_of (clist (add_parent c n f g)) n = Some s"
    "s \<in> set (my_parents (objs (add_parent c n f g) ! c))"
    "c \<in> set (my_children (objs (add_parent c n f g) ! s))"
    "my_file (objs (add_parent c n f g) ! s) = f"
proof -
  obtain s g1 where ac: "AddClass n '''' f g = (s, g1)" by (cases "AddClass n '''' f g")
  have wf1: "graph_wf g1" using AddClass_wf [OF wf, of n "''''" f] ac by simp
  have r: "map_of (clist g1) n = Some s" "registered g1 s" "registered g1 c" "my_file (objs g1 ! s) = f"
    using AddClass_result [OF wf ac] rc by auto
  have sv: "s < length (objs g1)" and cv: "c < length (objs g1)"
    using registered_valid r wf1 by (auto simp: graph_wf_def)
  show ?thesis
    using r sv cv by (intro that [of s]) (auto simp: add_parent_unfold [OF ac])
qed

lemma names_of_filtered:
  "\<forall>(k, p)\<in>set xs. my_name (os ! p) = k \<Longrightarrow>
     map (\<lambda>p. my_name (os ! p)) [p. (k, p) \<leftarrow> xs, P p] = map fst (filter (\<lambda>(k, p). P p) xs)"
  by (induction xs) auto

lemma comprehension_filter:
  "[p. (k, p) \<leftarrow> xs, P p] = map snd (filter (\<lambda>(k, p). P p) xs)"
  by (induction xs) auto

subsection \<open>Properties\<close>

text \<open>C14: every graph built from the empty registry by \<open>AddClass\<close>,
  \<open>add_parent\<close> and the \<open>implements\<close> allocation, applied as
  \<open>FindClassDefsInFile\<close> applies them, is well formed: \<open>clist\<close> is sorted
  with distinct objects named by their keys, every edge list is duplicate-free,
  parent and child edges are registered and come in matching pairs, and
  interface edges point to unregistered objects.\<close>

theorem reachable_graph_wf: "reachable g \<Longrightarrow> graph_wf g"
  by (induction rule: reachable.induct) (simp_all add: graph_wf_empty graph_step_wf)

text \<open>C15: \<open>AddClass\<close> implements get-or-create on the registry map:
  afterwards the name maps to the returned object, which is the registered one
  when there was one and a new object otherwise, and it carries the given file.\<close>

theorem AddClass_get_or_create:
  assumes "graph_wf g" and "AddClass n m f g = (p, g')"
  shows "map_of (clist g') = (map_of (clist g))(n \<mapsto> p) \<and>
    (map_of (clist g) n = Some p \<or> (map_of (clist g) n = None \<and> p = length (objs g))) \<and>
    my_name (objs g' ! p) = n \<and> my_file (objs g' ! p) = f"
proof (cases "map_of (clist g) n")
  case None
  with assms show ?thesis
    using AddClass_result [OF assms] by (auto simp: AddClass_fresh map_of_map_insert)
next
  case (Some q)
  with assms show ?thesis
    using AddClass_result [OF assms] by (auto simp: AddClass_known fun_eq_iff)
qed

text \<open>C18: when the name is already registered (a forward reference from an
  \<open>extends\<close>), \<open>AddClass\<close> leaves the modifier unchanged, so a class first
  seen as a superclass keeps the empty modifier after its own declaration.\<close>

theorem AddClass_keeps_modifier:
  "graph_wf g \<Longrightarrow> map_of (clist g) n = Some p \<Longrightarrow>
     my_modifier (objs (snd (AddClass n m f g)) ! p) = my_modifier (objs g ! p)"
  by (auto simp: AddClass_known upd_obj_def graph_wf_def registry_ok_def nth_list_update
      dest!: map_of_SomeD)

text \<open>C16: recording the same superclass twice is the same as recording it
  once: the parent/child edge pair is not duplicated.\<close>

theorem add_parent_idempotent:
  assumes wf: "graph_wf g" and rc: "registered g c"
  shows "add_parent c n f (add_parent c n f g) = add_parent c n f g"
proof -
  let ?g1 = "add_parent c n f g"
  obtain s where s: "map_of (clist ?g1) n = Some s" "s \<in> set (my_parents (objs ?g1 ! c))"
      "c \<in> set (my_children (objs ?g1 ! s))" "my_file (objs ?g1 ! s) = f"
    using add_parent_result [OF wf rc] by metis
  have ac: "AddClass n '''' f ?g1 = (s, ?g1)"
    using s by (simp add: AddClass_known upd_obj_id)
  show ?thesis
    using s by (simp add: add_parent_unfold [OF ac] upd_obj_id add_linkage_def)
qed

text \<open>C17: recording the same \<open>implements\<close> token twice adds two interface
  edges, to two distinct fresh objects: interface edges are not deduplicated.\<close>

theorem implements_not_deduplicated:
  assumes wf: "graph_wf g" and rc: "registered g c"
  shows "length (my_interfaces (objs (add_implements c t (add_implements c t g)) ! c)) =
           length (my_interfaces (objs g ! c)) + 2"
proof -
  have ro: "registry_ok g" using wf by (simp add: graph_wf_def)
  have cv: "c < length (objs g)" using registered_valid [OF ro rc] .
  have wf1: "graph_wf (add_implements c t g)" using add_implements_wf [OF wf rc] .
  have eo: "edges_ok g" using wf by (simp add: graph_wf_def)
  then have "length (objs g) \<notin> set (my_interfaces (objs g ! c))"
    using cv by (auto simp: edges_ok_def)
  moreover have "Suc (length (objs g)) \<notin> set (my_interfaces (objs g ! c))"
    using eo cv by (fastforce simp: edges_ok_def)
  ultimately show ?thesis
    using cv by (simp add: add_implements_objs nth_append add_linkage_def)
qed

text \<open>C19: the roots \<open>display_dependences\<close> renders are the registered
  objects without parents, each once, in ascending name order (the order of the
  \<open>std::map\<close>), not in the order they were first recorded.\<close>

theorem roots_in_name_order:
  assumes "graph_wf g"
  shows "sorted_wrt (<) (map (\<lambda>p. my_name (objs g ! p)) (roots g)) \<and> distinct (roots g) \<and>
    set (roots g) = {p. registered g p \<and> my_parents (objs g ! p) = []}"
proof -
  have ro: "registry_ok g" using assms by (simp add: graph_wf_def)
  have names: "map (\<lambda>p. my_name (objs g ! p)) (roots g) =
      map fst (filter (\<lambda>(k, p). my_parents (objs g ! p) = []) (clist g))"
    using ro unfolding roots_def registry_ok_def
    by (intro names_of_filtered) auto
  show ?thesis
  proof (intro conjI)
    show "sorted_wrt (<) (map (\<lambda>p. my_name (objs g ! p)) (roots g))"
      using ro unfolding names registry_ok_def sorted_wrt_map by (auto intro: sorted_wrt_filter)
  next
    show "distinct (roots g)"
      using ro unfolding roots_def registry_ok_def comprehension_filter
      by (auto intro: distinct_map_filter)
  next
    show "set (roots g) = {p. registered g p \<and> my_parents (objs g ! p) = []}"
      by (auto simp: roots_def registered_def comprehension_filter image_iff)
  qed
qed

subsection \<open>Witnesses\<close>

lemma ab_reachable: "reachable (fold graph_step ab_ops empty_graph)"
  unfolding ab_ops_def fold_simps comp_def
  by (intro reachable_step reachable_empty)
     (simp_all add: registered_def AddClass_def add_parent_def add_implements_def upd_obj_def
        empty_graph_def Let_def)

theorem reachable_graph_wf_witness:
  "reachable (fold graph_step ab_ops empty_graph) \<and> graph_wf (fold graph_step ab_ops empty_graph)"
  using reachable_graph_wf [OF ab_reachable] ab_reachable by simp

theorem AddClass_get_or_create_witness:
  "graph_wf empty_graph \<and> AddClass ''A'' ''public '' ''A.java'' empty_graph = (0, snd (AddClass ''A'' ''public '' ''A.java'' empty_graph)) \<and>
   map_of (clist (snd (AddClass ''A'' ''public '' ''A.java'' empty_graph))) ''A'' = Some 0"
proof -
  have e: "AddClass ''A'' ''public '' ''A.java'' empty_graph = (0, snd (AddClass ''A'' ''public '' ''A.java'' empty_graph))"
    by (simp add: AddClass_def empty_graph_def)
  show ?thesis
    using AddClass_get_or_create [OF graph_wf_empty e] e graph_wf_empty by simp
qed

lemma ab_wf: "graph_wf (fold graph_step ab_ops empty_graph)"
  by code_simp

lemma ab_graph_eq: "fold graph_step ab_ops empty_graph =
  \<lparr>clist = [(''A'', 0), (''B'', 1)],
   objs = [\<lparr>my_name = ''A'', my_modifier = ''public '', my_file = ''A.java'', my_children = [],
            my_parents = [1], my_interfaces = [2, 3]\<rparr>,
           \<lparr>my_name = ''B'', my_modifier = [], my_file = ''_no_file_'', my_children = [0],
            my_parents = [], my_interfaces = []\<rparr>,
           new_class_rel ''I1'' ''interface'' ''_no_file_'', new_class_rel ''I2'' ''interface'' ''_no_file_'']\<rparr>"
  by (simp add: ab_ops_def registered_def AddClass_def add_parent_def add_implements_def upd_obj_def
        empty_graph_def Let_def new_class_rel_def add_linkage_def)

theorem roots_in_name_order_witness:
  "graph_wf (fold graph_step ab_ops empty_graph) \<and> roots (fold graph_step ab_ops empty_graph) = [1]"
  using roots_in_name_order [OF ab_wf] ab_wf by (simp add: ab_graph_eq roots_def)

theorem AddClass_keeps_modifier_witness:
  "graph_wf (fold graph_step ab_ops empty_graph) \<and> map_of (clist (fold graph_step ab_ops empty_graph)) ''B'' = Some 1 \<and>
   my_modifier (objs (snd (AddClass ''B'' ''public '' ''B.java'' (fold graph_step ab_ops empty_graph))) ! 1) = []"
  using AddClass_keeps_modifier [OF ab_wf, of "''B''" 1 "''public ''" "''B.java''"] ab_wf
  by (simp add: ab_graph_eq)

theorem add_parent_idempotent_witness:
  "graph_wf (fold graph_step ab_ops empty_graph) \<and> registered (fold graph_step ab_ops empty_graph) 0 \<and>
   add_parent 0 ''C'' ''C.java'' (add_parent 0 ''C'' ''C.java'' (fold graph_step ab_ops empty_graph)) =
   add_parent 0 ''C'' ''C.java'' (fold graph_step ab_ops empty_graph)"
  using add_parent_idempotent [OF ab_wf, of 0 "''C''" "''C.java''"] ab_wf
  by (simp add: ab_graph_eq registered_def)

theorem implements_not_deduplicated_witness:
  "graph_wf (fold graph_step ab_ops empty_graph) \<and> registered (fold graph_step ab_ops empty_graph) 0 \<and>
   length (my_interfaces (objs (add_implements 0 ''I1'' (add_implements 0 ''I1'' (fold graph_step ab_ops empty_graph))) ! 0)) = 4"
  using implements_not_deduplicated [OF ab_wf, of 0 "''I1''"] ab_wf
  by (simp add: ab_graph_eq registered_def)

end
