(* ===== verification/ClassPattern.thy ===== *)
theory ClassPattern
  imports Prelude
begin

text \<open>
  The class-declaration patterns \<open>pubClass_p\<close> and \<open>allClass_p\<close> of
  \<open>FindClassDefsInFile\<close> (javatree.cpp) under \<open>std::regex_match\<close>, as a
  deterministic scan; the theory shows where group 4 starts and that it
  starts before the declaration's terminator.
\<close>

subsection \<open>The class pattern\<close>

text \<open>The pattern
  \<open>[ \t]*(((public|abstract|final|static)[ \t]+)*)class[ \t]+([A-Za-z].*)\<close>
  under \<open>std::regex_match\<close> (ECMAScript).  The modifier words are prefix-free
  and none is a prefix of \<open>class\<close>, so the greedy reading below is the only
  way the pattern can match: a run of blanks, a run of modifier words each
  followed by blanks (group 1), \<open>class\<close>, blanks, and a letter followed by
  characters that are not line terminators (\<open>.\<close> excludes \<open>\n\<close> and
  \<open>\r\<close>; group 4).  The result is group 1, the position of group 4 and
  group 4.\<close>

definition is_tb :: "char \<Rightarrow> bool" where
  "is_tb c \<longleftrightarrow> c = CHR '' '' \<or> c = TAB"

definition is_alpha :: "char \<Rightarrow> bool" where
  "is_alpha c \<longleftrightarrow> (CHR ''A'' \<le> c \<and> c \<le> CHR ''Z'') \<or> (CHR ''a'' \<le> c \<and> c \<le> CHR ''z'')"

definition pub_mods :: "string list" where
  "pub_mods = [''public'', ''abstract'', ''final'', ''static'']"

definition all_mods :: "string list" where
  "all_mods = [''public'', ''protected'', ''private'', ''abstract'', ''final'', ''static'']"

definition mod_word :: "string list \<Rightarrow> string \<Rightarrow> string option" where
  "mod_word mods s =
     find (\<lambda>m. m \<noteq> [] \<and> take (length m) s = m \<and> length m < length s \<and> is_tb (s ! length m)) mods"

lemma mod_word_Some: "mod_word mods s = Some m \<Longrightarrow> 0 < length m \<and> length m < length s"
  by (auto simp: mod_word_def dest: find_Some_iff [THEN iffD1])

function mods_run :: "string list \<Rightarrow> string \<Rightarrow> nat" where
  "mods_run mods s =
     (case mod_word mods s of
        None \<Rightarrow> 0
      | Some m \<Rightarrow>
          (let k = length m + length (takeWhile is_tb (drop (length m) s))
           in k + mods_run mods (drop k s)))"
  by pat_completeness auto
termination
  by (relation "measure (\<lambda>(mods, s). length s)") (auto dest!: mod_word_Some intro!: diff_less)

declare mods_run.simps [simp del]

definition class_match :: "string list \<Rightarrow> string \<Rightarrow> (string \<times> nat \<times> string) option" where
  "class_match mods line =
     (let lead = length (takeWhile is_tb line);
          s1 = drop lead line;
          k = mods_run mods s1;
          s2 = drop k s1
      in if take 5 s2 = ''class'' then
           (let s3 = drop 5 s2;
                b = length (takeWhile is_tb s3);
                s4 = drop b s3
            in if 0 < b \<and> s4 \<noteq> [] \<and> is_alpha (hd s4) \<and> NL \<notin> set s4 \<and> CR \<notin> set s4
               then Some (take k s1, lead + k + 5 + b, s4) else None)
         else None)"

subsection \<open>Lemmas\<close>

lemma mod_word_take: "mod_word mods s = Some m \<Longrightarrow> m \<in> set mods \<and> take (length m) s = m"
  by (auto simp: mod_word_def dest: find_Some_iff [THEN iffD1] intro: nth_mem)

lemma mods_run_chars:
  "mods_run mods s \<le> length s \<and>
   set (take (mods_run mods s) s) \<subseteq> set (concat mods) \<union> {CHR '' '', TAB}"
proof (induction mods s rule: mods_run.induct)
  case (1 mods s)
  show ?case
  proof (cases "mod_word mods s")
    case None
    then show ?thesis by (simp add: mods_run.simps [of mods s])
  next
    case (Some m)
    define k where "k = length m + length (takeWhile is_tb (drop (length m) s))"
    have mt: "m \<in> set mods" "take (length m) s = m" using mod_word_take [OF Some] by auto
    have ml: "length m < length s" using mod_word_Some [OF Some] by simp
    have kl: "k \<le> length s"
      using ml length_takeWhile_le [of is_tb "drop (length m) s"] by (simp add: k_def)
    have tk: "take k s = m @ takeWhile is_tb (drop (length m) s)"
      by (metis k_def mt(2) take_add takeWhile_eq_take)
    have "set (takeWhile is_tb (drop (length m) s)) \<subseteq> {CHR '' '', TAB}"
      by (auto simp: is_tb_def dest: set_takeWhileD)
    then have sk: "set (take k s) \<subseteq> set (concat mods) \<union> {CHR '' '', TAB}"
      using mt by (auto simp: tk)
    have ih: "mods_run mods (drop k s) \<le> length (drop k s) \<and>
        set (take (mods_run mods (drop k s)) (drop k s)) \<subseteq> set (concat mods) \<union> {CHR '' '', TAB}"
      using "1.IH" [OF Some] by (simp add: k_def)
    have run: "mods_run mods s = k + mods_run mods (drop k s)"
      using Some by (simp add: mods_run.simps [of mods s] k_def Let_def)
    show ?thesis
      unfolding run using ih sk kl by (auto simp: take_add)
  qed
qed

lemma class_match_Some:
  assumes "class_match mods line = Some (g1, p, g4)"
  shows "drop p line = g4 \<and> g4 \<noteq> [] \<and> is_alpha (hd g4) \<and> CR \<notin> set g4 \<and> NL \<notin> set g4 \<and>
    set (take p line) \<subseteq> set (concat mods) \<union> {CHR '' '', TAB} \<union> set ''class''"
proof -
  define lead where "lead = length (takeWhile is_tb line)"
  define s1 where "s1 = drop lead line"
  define k where "k = mods_run mods s1"
  define s3 where "s3 = drop 5 (drop k s1)"
  define b where "b = length (takeWhile is_tb s3)"
  have m: "take 5 (drop k s1) = ''class''" "0 < b" "drop b s3 \<noteq> []" "is_alpha (hd (drop b s3))"
    "NL \<notin> set (drop b s3)" "CR \<notin> set (drop b s3)" "g4 = drop b s3" "p = lead + k + 5 + b"
    using assms by (auto simp: class_match_def Let_def lead_def s1_def k_def s3_def b_def split: if_splits)
  have kl: "k \<le> length s1" using mods_run_chars [of mods s1] by (simp add: k_def)
  have "length (take 5 (drop k s1)) = 5" using m(1) by simp
  then have c5: "5 \<le> length (drop k s1)" by simp
  have p: "p = lead + (k + (5 + b))" using m(8) by simp
  have take_p: "take p line = take lead line @ take k s1 @ ''class'' @ take b s3"
  proof -
    have "take p line = take lead line @ take k s1 @ take 5 (drop k s1) @ take b s3"
      unfolding p s1_def s3_def by (simp only: take_add append_assoc)
    then show ?thesis using m(1) by simp
  qed
  have "set (take lead line) \<subseteq> {CHR '' '', TAB}"
    by (auto simp: lead_def is_tb_def takeWhile_eq_take [symmetric] dest: set_takeWhileD)
  moreover have "set (take b s3) \<subseteq> {CHR '' '', TAB}"
    by (auto simp: b_def is_tb_def takeWhile_eq_take [symmetric] dest: set_takeWhileD)
  moreover have "set (take k s1) \<subseteq> set (concat mods) \<union> {CHR '' '', TAB}"
    using mods_run_chars [of mods s1] by (simp add: k_def)
  moreover have "drop p line = g4"
    unfolding p m(7) s1_def s3_def by (simp add: ac_simps)
  ultimately show ?thesis using m take_p by auto
qed

subsection \<open>Properties\<close>

text \<open>C22: when the modifier words contain neither \<open>;\<close>
  nor \<open>{\<close>, group 4 of the class pattern is the suffix of the line from its
  position, and that position lies strictly before the first \<open>;\<close> or \<open>{\<close> of the
  line; so \<open>rightClass.resize(endIdx - matchs.position(4))\<close> never wraps.\<close>

theorem class_match_cut_point:
  assumes "CHR '';'' \<notin> set (concat mods)" and "CHR ''{'' \<notin> set (concat mods)"
    and "class_match mods line = Some (g1, p, g4)"
  shows "drop p line = g4 \<and> (\<forall>i. find_first_of line '';{'' = Some i \<longrightarrow> p < i)"
proof -
  have cm: "drop p line = g4" "g4 \<noteq> []" "is_alpha (hd g4)"
    "set (take p line) \<subseteq> set (concat mods) \<union> {CHR '' '', TAB} \<union> set ''class''"
    using class_match_Some [OF assms(3)] by auto
  have "p < i" if f: "find_first_of line '';{'' = Some i" for i
  proof (rule ccontr)
    assume "\<not> p < i"
    have fi: "i < length line" "line ! i \<in> set '';{''"
      using find_first_of_from_Some [of line "'';{''" 0 i] f by (auto simp: find_first_of_def)
    show False
    proof (cases "i = p")
      case True
      have "line ! p = hd g4" using cm(1,2) fi(1) True by (metis hd_drop_conv_nth)
      with fi(2) True cm(3) show False by (auto simp: is_alpha_def)
    next
      case False
      with \<open>\<not> p < i\<close> have "i < p" by simp
      then have "line ! i \<in> set (take p line)" using fi(1) by (auto simp: in_set_conv_nth)
      with cm(4) fi(2) assms(1,2) show False by auto
    qed
  qed
  with cm(1) show ?thesis by blast
qed

subsection \<open>Witnesses\<close>

lemma class_match_cut_point_witness:
  "class_match pub_mods ''public class A {'' = Some (''public '', 13, ''A {'') \<and>
   drop 13 ''public class A {'' = ''A {'' \<and> find_first_of ''public class A {'' '';{'' = Some 15"
proof -
  have m: "class_match pub_mods ''public class A {'' = Some (''public '', 13, ''A {'')" by code_simp
  have f: "find_first_of ''public class A {'' '';{'' = Some 15" by code_simp
  have "CHR '';'' \<notin> set (concat pub_mods)" "CHR ''{'' \<notin> set (concat pub_mods)"
    by (simp_all add: pub_mods_def)
  with class_match_cut_point [OF _ _ m] m f show ?thesis by simp
qed

end
