(* ===== verification/BraceDepth.thy ===== *)
theory BraceDepth
  imports Prelude
begin

text \<open>
  The brace loop at the end of the main loop of \<open>FindClassDefsInFile\<close>
  (javatree.cpp): the nesting depth, an \<open>int\<close>, and the stack
  \<open>classNames\<close> of the names of the enclosing classes, a
  \<open>std::vector<std::string>\<close> cut with \<open>resize\<close>.  The theory shows the
  stack invariant while the depth stays non-negative, and the
  \<open>std::length_error\<close> thrown when a negative depth reaches \<open>resize\<close>.
\<close>

subsection \<open>Resizing the name stack\<close>

text \<open>\<open>std::vector<std::string>::resize(n)\<close> called with an \<open>int\<close>: the
  argument is converted to \<open>size_t\<close>; a size above \<open>max_size()\<close>
  (\<open>PTRDIFF_MAX / sizeof(std::string)\<close> in libstdc++ on a 64-bit target)
  throws \<open>std::length_error\<close>; otherwise the vector is cut or padded with
  empty strings.\<close>

definition vector_max_size :: nat where
  "vector_max_size = 288230376151711743"

lemma vector_max_size_value: "vector_max_size = (2 ^ 63 - 1) div 32"
  by (simp add: vector_max_size_def)

definition vector_resize :: "string list \<Rightarrow> int \<Rightarrow> jt_error + string list" where
  "vector_resize xs d =
     (let n = size_t_of d
      in if vector_max_size < n then Inl LengthError
         else Inr (take n xs @ replicate (n - length xs) []))"

lemma vector_resize_code [code]:
  "vector_resize xs d =
     (let m = d mod 18446744073709551616
      in if (288230376151711743::int) < m then Inl LengthError
         else Inr (take (nat m) xs @ replicate (nat m - length xs) []))"
  by (simp add: vector_resize_def size_t_of_def vector_max_size_def Let_def zless_nat_eq_int_zless)

subsection \<open>Brace depth and enclosing names\<close>

text \<open>The \<open>for\<close> loop over the characters of \<open>line\<close>: \<open>{\<close> cuts the
  name stack to \<open>depth\<close>, pushes \<open>class_name\<close> and increments the depth;
  \<open>}\<close> decrements it and, unless it went negative (then only a message is
  printed), cuts the stack to the new depth.\<close>

fun brace_loop :: "string \<Rightarrow> string \<Rightarrow> int \<Rightarrow> string list \<Rightarrow> jt_error + (int \<times> string list)" where
  "brace_loop class_name [] depth classNames = Inr (depth, classNames)"
| "brace_loop class_name (c # cs) depth classNames =
     (if c = CHR ''{'' then
        (case vector_resize classNames depth of
           Inl e \<Rightarrow> Inl e
         | Inr ns \<Rightarrow> brace_loop class_name cs (depth + 1) (ns @ [class_name]))
      else if c = CHR ''}'' then
        (if depth - 1 < 0 then brace_loop class_name cs (depth - 1) classNames
         else (case vector_resize classNames (depth - 1) of
                 Inl e \<Rightarrow> Inl e
               | Inr ns \<Rightarrow> brace_loop class_name cs (depth - 1) ns))
      else brace_loop class_name cs depth classNames)"

subsection \<open>Lemmas\<close>

lemma size_t_of_negative:
  "d < 0 \<Longrightarrow> - (2 ^ 31) \<le> d \<Longrightarrow> vector_max_size < size_t_of d"
proof -
  assume "d < 0" "- (2 ^ 31) \<le> d"
  then have "(d + 2 ^ 64) mod 2 ^ 64 = d + 2 ^ 64" by (intro mod_pos_pos_trivial) auto
  then have "d mod 2 ^ 64 = d + 2 ^ 64" by simp
  then show ?thesis using \<open>- (2 ^ 31) \<le> d\<close> by (simp add: size_t_of_def vector_max_size_def)
qed

lemma vector_resize_negative:
  "d < 0 \<Longrightarrow> - (2 ^ 31) \<le> d \<Longrightarrow> vector_resize xs d = Inl LengthError"
  by (simp add: vector_resize_def size_t_of_negative)

lemma vector_resize_same:
  "0 \<le> d \<Longrightarrow> d < 2 ^ 31 \<Longrightarrow> length xs = nat d \<Longrightarrow> vector_resize xs d = Inr xs"
  by (simp add: vector_resize_def size_t_of_def vector_max_size_def Let_def nat_less_iff)

lemma vector_resize_shrink:
  "0 \<le> d \<Longrightarrow> nat d \<le> length xs \<Longrightarrow> d < 2 ^ 31 \<Longrightarrow> vector_resize xs d = Inr (take (nat d) xs)"
  by (simp add: vector_resize_def size_t_of_def vector_max_size_def Let_def nat_less_iff)

lemma brace_loop_negative:
  "d < 0 \<Longrightarrow> - (2 ^ 31) \<le> d - int (length s) \<Longrightarrow>
     brace_loop cn s d ns =
       (if CHR ''{'' \<in> set s then Inl LengthError else Inr (d - int (count_list s (CHR ''}'')), ns))"
proof (induction s arbitrary: d)
  case Nil
  then show ?case by simp
next
  case (Cons c s)
  show ?case
  proof (cases "c = CHR ''{''")
    case True
    with Cons.prems show ?thesis by (simp add: vector_resize_negative)
  next
    case False
    with Cons show ?thesis by (auto simp: algebra_simps)
  qed
qed

lemma brace_loop_no_braces:
  "CHR ''{'' \<notin> set u \<Longrightarrow> CHR ''}'' \<notin> set u \<Longrightarrow> brace_loop cn (u @ w) d ns = brace_loop cn w d ns"
  by (induction u arbitrary: d ns) auto

subsection \<open>Properties\<close>

text \<open>C20: while the brace depth of a file stays non-negative and below 2^31, the
  brace loop keeps the stack of enclosing class names exactly as long as the depth, the
  new depth is the old one plus the opening minus the closing braces of the line, and
  the stack only ever holds names that were pushed.\<close>

theorem brace_loop_depth:
  "0 \<le> d \<Longrightarrow> d + int (length s) < 2 ^ 31 \<Longrightarrow> length ns = nat d \<Longrightarrow>
     brace_loop cn s d ns = Inr (d', ns') \<Longrightarrow> 0 \<le> d' \<Longrightarrow>
     length ns' = nat d' \<and>
     d' = d + int (count_list s (CHR ''{'')) - int (count_list s (CHR ''}'')) \<and>
     set ns' \<subseteq> insert cn (set ns)"
proof (induction s arbitrary: d ns)
  case Nil
  then show ?case by auto
next
  case (Cons c s)
  consider (op) "c = CHR ''{''" | (cl) "c = CHR ''}''" | (other) "c \<noteq> CHR ''{''" "c \<noteq> CHR ''}''"
    by blast
  then show ?case
  proof cases
    case op
    have r: "vector_resize ns d = Inr ns"
      using Cons.prems by (intro vector_resize_same) auto
    with op Cons.prems have "brace_loop cn s (d + 1) (ns @ [cn]) = Inr (d', ns')" by simp
    with Cons.IH [of "d + 1" "ns @ [cn]"] Cons.prems op show ?thesis by auto
  next
    case cl
    show ?thesis
    proof (cases "d - 1 < 0")
      case True
      have "- (2 ^ 31) \<le> d - 1 - int (length s)" using Cons.prems by simp
      with True cl Cons.prems show ?thesis
        by (simp add: brace_loop_negative split: if_splits)
    next
      case False
      have r: "vector_resize ns (d - 1) = Inr (take (nat (d - 1)) ns)"
        using Cons.prems False by (intro vector_resize_shrink) auto
      with cl False Cons.prems have "brace_loop cn s (d - 1) (take (nat (d - 1)) ns) = Inr (d', ns')"
        by simp
      with Cons.IH [of "d - 1" "take (nat (d - 1)) ns"] Cons.prems False cl show ?thesis
        by (auto dest: in_set_takeD)
    qed
  next
    case other
    with Cons.prems have "brace_loop cn s d ns = Inr (d', ns')" by simp
    with Cons.IH [of d ns] Cons.prems other show ?thesis by auto
  qed
qed

text \<open>C21: a closing brace at depth 0 (before any opening
  brace on the line) drives the depth negative; a later opening brace then calls
  \<open>classNames.resize\<close> with a negative \<open>int\<close>, which is converted to a huge
  \<open>size_t\<close> and throws \<open>std::length_error\<close>.\<close>

theorem brace_loop_unbalanced_throws:
  assumes "CHR ''{'' \<notin> set u" and "CHR ''}'' \<notin> set u" and "CHR ''{'' \<in> set v"
    and "length v < 2 ^ 31"
  shows "brace_loop cn (u @ CHR ''}'' # v) 0 ns = Inl LengthError"
proof -
  have "brace_loop cn (u @ CHR ''}'' # v) 0 ns = brace_loop cn v (-1) ns"
    using assms(1,2) by (simp add: brace_loop_no_braces)
  also have "\<dots> = Inl LengthError"
    using assms(3,4) by (simp add: brace_loop_negative)
  finally show ?thesis .
qed

subsection \<open>Witnesses\<close>

lemma brace_loop_depth_witness:
  "brace_loop ''A'' ''{{}'' 0 [] = Inr (1, [''A'']) \<and> length [''A''] = nat 1 \<and> set [''A''] \<subseteq> insert ''A'' (set [])"
proof -
  have b: "brace_loop ''A'' ''{{}'' 0 [] = Inr (1, [''A''])" by code_simp
  show ?thesis using b brace_loop_depth [OF _ _ _ b] by simp
qed

lemma brace_loop_unbalanced_throws_witness:
  "brace_loop ''A'' (''x'' @ CHR ''}'' # ''{'') 0 [] = Inl LengthError"
  by (rule brace_loop_unbalanced_throws) simp_all

end
