(* ===== verification/Extractor.thy ===== *)
theory Extractor
  imports Scrubber Tokenizer Graph ClassPattern BraceDepth
begin

text \<open>
  The declaration scanner \<open>FindClassDefsInFile\<close> of javatree.cpp, over the
  content of one file.  A file is read line by line
  through the scrubber (\<open>getJavaline\<close>); a line that matches the class
  pattern (\<open>pubClass_p\<close>, or \<open>allClass_p\<close> with option \<open>-A\<close>) is cut at
  its first \<open>;\<close> or \<open>{\<close>, blank-normalised and split (theory
  \<open>Tokenizer\<close>); a public (or, with \<open>-A\<close>, any) class is entered in the
  registry (theory \<open>Graph\<close>) under its dotted nesting path, further lines are
  appended while the declaration has no terminator, and the
  \<open>extends\<close>/\<open>implements\<close> tokens feed the graph.  Every line then updates the
  brace depth and the stack of enclosing class names.  Exceptions thrown on
  the way (\<open>std::out_of_range\<close> from the scrubber, \<open>std::length_error\<close>
  from \<open>std::vector::resize\<close>) are caught by the \<open>catch (exception)\<close> of the
  function, which then returns false; the registry keeps what was entered.
\<close>

subsection \<open>Helpers\<close>

text \<open>\<open>hasExtension(filepath, extn)\<close>: \<open>strstr\<close> finds the first
  occurrence, which must end the path.\<close>

definition hasExtension :: "string \<Rightarrow> string \<Rightarrow> bool" where
  "hasExtension filepath extn =
     (case str_find filepath extn 0 of
        None \<Rightarrow> False
      | Some i \<Rightarrow> i + length extn = length filepath)"

text \<open>\<open>FilePathToURL(filepath)\<close>.\<close>

definition FilePathToURL :: "string \<Rightarrow> string" where
  "FilePathToURL filepath =
     ''file:///'' @ map (\<lambda>c. if c = CHR 0x5C then CHR ''/'' else c) filepath"

text \<open>\<open>MakeFullClassName(outFullName, inNames, name)\<close>: the enclosing names,
  each followed by a dot (empty ones are reported and skipped), then the name.\<close>

definition MakeFullClassName :: "string list \<Rightarrow> string \<Rightarrow> string" where
  "MakeFullClassName inNames name =
     (if inNames = [] then name
      else concat (map (\<lambda>n. n @ ''.'') (filter (\<lambda>n. n \<noteq> []) inNames)) @ name)"

text \<open>\<open>strrchr(s, c)\<close> and \<open>s.find_last_of(c)\<close>: the last index of \<open>c\<close>.\<close>

definition last_index_of :: "string \<Rightarrow> char \<Rightarrow> nat option" where
  "last_index_of s c =
     (if c \<in> set s then Some (length s - 1 - the (find_first_of (rev s) [c])) else None)"

subsection \<open>The extends/implements tokens\<close>

text \<open>\<open>int modType\<close>: 0 none, 1 after \<open>extends\<close>, 2 after \<open>implements\<close>.\<close>

datatype mod_type = ModNone | ModExtends | ModImplements

fun parent_tokens :: "addr \<Rightarrow> mod_type \<Rightarrow> string list \<Rightarrow> graph \<Rightarrow> graph" where
  "parent_tokens crel modType [] g = g"
| "parent_tokens crel modType (token # tokens) g =
     (if token = ''extends'' then parent_tokens crel ModExtends tokens g
      else if token = ''implements'' then parent_tokens crel ModImplements tokens g
      else (case modType of
              ModNone \<Rightarrow> parent_tokens crel modType tokens g
            | ModExtends \<Rightarrow> parent_tokens crel modType tokens (add_parent crel token ''_no_file_'' g)
            | ModImplements \<Rightarrow> parent_tokens crel modType tokens (add_implements crel token g)))"

subsection \<open>Continuation lines\<close>

lemma getJavaline_rest:
  "getJavaline rd inp = Inr (rd', l, good, rest) \<Longrightarrow>
     length rest \<le> length inp \<and> (good \<longrightarrow> length rest < length inp)"
proof -
  assume r: "getJavaline rd inp = Inr (rd', l, good, rest)"
  obtain line rest0 good0 where g: "std_getline inp = (line, rest0, good0)"
    by (cases "std_getline inp")
  then have "javaline_process rd line good0 rest0 = Inr (rd', l, good, rest)"
    using r by (simp add: getJavaline_def)
  then have "rest = rest0 \<and> good = good0"
    by (auto simp: javaline_process_def split: if_splits sum.splits prod.splits)
  moreover have "length rest0 \<le> length inp"
  proof -
    have "length (tl (dropWhile (\<lambda>c. c \<noteq> NL) inp)) \<le> length inp"
      by (metis diff_le_self le_trans length_dropWhile_le length_tl)
    with g show ?thesis by (auto simp: std_getline_def split: if_splits)
  qed
  moreover have "good0 \<longrightarrow> length rest0 < length inp"
    using g std_getline_good_shorter [of inp line rest0] by auto
  ultimately show ?thesis by simp
qed

text \<open>The \<open>while (reader.getJavaline(in, moreText).good())\<close> loop that
  appends lines to a declaration without terminator.  The result is the new
  reader, the extended line, the unread input, and whether the loop ended on a
  failed read (the stream is then at its end).\<close>

function read_more :: "java_reader \<Rightarrow> string \<Rightarrow> string \<Rightarrow> jt_error + (java_reader \<times> string \<times> string \<times> bool)" where
  "read_more rd line inp =
     (case getJavaline rd inp of
        Inl e \<Rightarrow> Inl e
      | Inr (rd', moreText, good, rest) \<Rightarrow>
          if \<not> good then Inr (rd', line, rest, True)
          else if find_first_of moreText '';{'' \<noteq> None then Inr (rd', line @ moreText, rest, False)
          else read_more rd' (line @ moreText) rest)"
  by pat_completeness auto
termination
  by (relation "measure (\<lambda>(rd, line, inp). length inp)") (auto dest: getJavaline_rest)

declare read_more.simps [simp del]

lemma read_more_rest:
  "read_more rd line inp = Inr (rd', line', rest, eof) \<Longrightarrow> length rest \<le> length inp"
proof (induction rd line inp rule: read_more.induct)
  case (1 rd line inp)
  show ?case
  proof (cases "getJavaline rd inp")
    case (Inl e)
    with "1.prems" show ?thesis by (simp add: read_more.simps [of rd line inp])
  next
    case (Inr r)
    obtain rd1 more good rest1 where r: "r = (rd1, more, good, rest1)" by (cases r)
    have lr: "length rest1 \<le> length inp" using getJavaline_rest Inr r by blast
    show ?thesis
    proof (cases "\<not> good \<or> find_first_of more '';{'' \<noteq> None")
      case True
      with "1.prems" Inr r lr show ?thesis
        by (auto simp: read_more.simps [of rd line inp] split: if_splits)
    next
      case False
      with "1.prems" Inr r have "read_more rd1 (line @ more) rest1 = Inr (rd', line', rest, eof)"
        by (simp add: read_more.simps [of rd line inp])
      with "1.IH" [OF Inr r [symmetric]] False lr show ?thesis by fastforce
    qed
  qed
qed

subsection \<open>One line of the file\<close>

record fc_state =
  fc_reader :: java_reader
  fc_depth :: int
  fc_classNames :: "string list"
  fc_class_name :: string
  fc_line :: string
  fc_eof :: bool
  fc_graph :: graph

text \<open>The run-time switches the scanner reads: \<open>allClasses\<close> (option
  \<open>-A\<close>) and whether \<open>cset == JAVA_CHAR\<close>.\<close>

record jt_config =
  allClasses :: bool
  cset_java :: bool

text \<open>\<open>split[0]\<close>; the split of a declaration is never empty (lemma
  \<open>decl_split_nonempty\<close>), so the empty case is not reached.\<close>

definition first_token :: "string list \<Rightarrow> string" where
  "first_token ts = (case ts of [] \<Rightarrow> [] | t # _ \<Rightarrow> t)"

definition braces :: "fc_state \<Rightarrow> string \<Rightarrow> (jt_error \<times> graph) + (fc_state \<times> string)" where
  "braces st rest =
     (case brace_loop (fc_class_name st) (fc_line st) (fc_depth st) (fc_classNames st) of
        Inl e \<Rightarrow> Inl (e, fc_graph st)
      | Inr (depth, classNames) \<Rightarrow> Inr (st\<lparr>fc_depth := depth, fc_classNames := classNames\<rparr>, rest))"

text \<open>The declaration of a public class (any class with \<open>-A\<close>): it is
  entered in the registry under its full name, the continuation lines are read
  while the declaration has no \<open>{\<close>, and the tokens after the class name
  feed the \<open>extends\<close>/\<open>implements\<close> state machine.  \<open>st1\<close> already
  holds the new \<open>class_name\<close>.\<close>

definition record_class ::
  "string \<Rightarrow> fc_state \<Rightarrow> string \<Rightarrow> string \<Rightarrow> string \<Rightarrow> char \<Rightarrow>
     (jt_error \<times> graph) + (fc_state \<times> string)" where
  "record_class filename st1 rest class_modifier rightClass endChar =
     (let class_name = fc_class_name st1; line = fc_line st1 in
      case AddClass (MakeFullClassName (fc_classNames st1) class_name) class_modifier
             filename (fc_graph st1) of
        (crel_ptr, g1) \<Rightarrow>
          (case (if endChar \<noteq> CHR ''{'' then read_more (fc_reader st1) line rest
                 else Inr (fc_reader st1, line, rest, False)) of
             Inl e \<Rightarrow> Inl (e, g1)
           | Inr (rd', line', rest', eof) \<Rightarrow>
               (let parents = normalize_blanks (drop (length class_name) rightClass);
                    g2 = parent_tokens crel_ptr ModNone (Split parents '', '') g1
                in braces (st1\<lparr>fc_reader := rd', fc_line := line', fc_eof := eof,
                                fc_graph := g2\<rparr>) rest')))"

text \<open>The body of the main \<open>while\<close> loop after a good read: \<open>continue\<close>
  for an empty or overlong line and for a declaration ended by \<open>;\<close>;
  otherwise the declaration (if any) is processed and the brace loop runs over
  the line, extended by the continuation lines.\<close>

definition process_line ::
  "jt_config \<Rightarrow> string \<Rightarrow> fc_state \<Rightarrow> string \<Rightarrow> (jt_error \<times> graph) + (fc_state \<times> string)" where
  "process_line cfg filename st rest =
     (let line = fc_line st in
      if 4096 \<le> length line \<or> length line \<le> 0 then Inr (st, rest)
      else
        (case class_match (if allClasses cfg then all_mods else pub_mods) line of
           None \<Rightarrow> braces st rest
         | Some (class_modifier, pos4, group4) \<Rightarrow>
             (let endIdx = (case find_first_of line '';{'' of None \<Rightarrow> length line | Some i \<Rightarrow> i);
                  endChar = (case find_first_of line '';{'' of None \<Rightarrow> CHR '' '' | Some i \<Rightarrow> line ! i)
              in if endChar = CHR '';'' then Inr (st, rest)
                 else
                   (let rightClass = normalize_blanks (replace_tab (take (endIdx - pos4) group4));
                        class_name = first_token (Split rightClass '' '');
                        st1 = st\<lparr>fc_class_name := class_name\<rparr>
                    in if allClasses cfg \<or> str_find class_modifier ''public'' 0 \<noteq> None then
                         record_class filename st1 rest class_modifier rightClass endChar
                       else braces st1 rest))))"

lemma braces_rest: "braces st rest = Inr (st', rest') \<Longrightarrow> rest' = rest"
  by (auto simp: braces_def split: sum.splits prod.splits)

lemma record_class_rest:
  "record_class filename st rest m rc e = Inr (st', rest') \<Longrightarrow> length rest' \<le> length rest"
  by (auto simp: record_class_def Let_def dest!: braces_rest read_more_rest
      split: if_splits sum.splits prod.splits)

lemma process_line_rest:
  "process_line cfg filename st rest = Inr (st', rest') \<Longrightarrow> length rest' \<le> length rest"
  by (auto simp: process_line_def Let_def dest!: braces_rest record_class_rest
      split: if_splits option.splits)

subsection \<open>The whole file\<close>

lemma javaline_process_not_good:
  "javaline_process rd line False rest = Inr (rd', l, good, rest') \<Longrightarrow> \<not> good"
  by (auto simp: javaline_process_def split: sum.splits)

text \<open>The main loop \<open>while (reader.getJavaline(in, line).good())\<close>.  Once
  a continuation loop has met the end of the input the stream is no longer
  good: the next \<open>std::getline\<close> fails at once and leaves \<open>line\<close> as it
  was, and \<open>getJavaline\<close> goes on with its end-of-input branch on that old
  line.  The result is the value of the function (false when an exception was
  caught) and the registry.\<close>

lemma read_then_process_shorter:
  assumes r: "(if fc_eof st then javaline_process (fc_reader st) (fc_line st) False []
               else getJavaline (fc_reader st) inp) = Inr (rd, line, good, rest)"
    and g: "good"
    and p: "process_line cfg filename st1 rest = Inr (st', rest')"
  shows "length rest' < length inp"
proof -
  have "\<not> fc_eof st"
  proof
    assume "fc_eof st"
    then have "javaline_process (fc_reader st) (fc_line st) False [] = Inr (rd, line, good, rest)"
      using r by simp
    then show False using javaline_process_not_good g by blast
  qed
  then have "length rest < length inp" using r g getJavaline_rest by auto
  moreover have "length rest' \<le> length rest" using process_line_rest [OF p] .
  ultimately show ?thesis by simp
qed

function scan_file :: "jt_config \<Rightarrow> string \<Rightarrow> fc_state \<Rightarrow> string \<Rightarrow> bool \<times> graph" where
  "scan_file cfg filename st inp =
     (case (if fc_eof st then javaline_process (fc_reader st) (fc_line st) False []
            else getJavaline (fc_reader st) inp) of
        Inl e \<Rightarrow> (False, fc_graph st)
      | Inr (rd, line, good, rest) \<Rightarrow>
          if \<not> good then (True, fc_graph st)
          else
            (case process_line cfg filename (st\<lparr>fc_reader := rd, fc_line := line\<rparr>) rest of
               Inl (e, g) \<Rightarrow> (False, g)
             | Inr (st', rest') \<Rightarrow> scan_file cfg filename st' rest'))"
  by pat_completeness auto
termination
  by (relation "measure (\<lambda>(cfg, filename, st, inp). length inp)")
     (auto dest: read_then_process_shorter)

declare scan_file.simps [simp del]

text \<open>The initial \<open>class_name\<close>: the base name of the path, cut at its last
  dot (\<open>resize(npos)\<close> would throw \<open>std::length_error\<close>).\<close>

definition initial_class_name :: "string \<Rightarrow> jt_error + string" where
  "initial_class_name filepath =
     (let baseName = (case last_index_of filepath (CHR ''/'') of
                        None \<Rightarrow> filepath
                      | Some i \<Rightarrow> drop (Suc i) filepath)
      in case last_index_of baseName (CHR ''.'') of
           None \<Rightarrow> Inl LengthError
         | Some i \<Rightarrow> Inr (take i baseName))"

text \<open>\<open>FindClassDefsInFile(filepath)\<close>: \<open>file\<close> is the content of the file,
  \<open>None\<close> when it cannot be opened.  Outside the JavaScript output the name
  recorded as the class's file is computed by \<open>strrchr\<close> on the local
  \<open>filename\<close>, which is still empty at that point.\<close>

definition FindClassDefsInFile :: "jt_config \<Rightarrow> string \<Rightarrow> string option \<Rightarrow> graph \<Rightarrow> bool \<times> graph" where
  "FindClassDefsInFile cfg filepath file g =
     (if \<not> hasExtension filepath ''.java'' then (False, g)
      else
        (case file of
           None \<Rightarrow> (False, g)
         | Some inp \<Rightarrow>
             (let filename0 = ([] :: string);
                  filename = (if cset_java cfg then FilePathToURL filepath
                              else (case last_index_of filename0 (CHR ''/'') of
                                      Some i \<Rightarrow> drop (Suc i) filename0
                                    | None \<Rightarrow> filepath))
              in case initial_class_name filepath of
                   Inl e \<Rightarrow> (False, g)
                 | Inr class_name \<Rightarrow>
                     scan_file cfg filename
                       \<lparr>fc_reader = new_reader, fc_depth = 0, fc_classNames = [],
                        fc_class_name = class_name, fc_line = [], fc_eof = False, fc_graph = g\<rparr> inp)))"

subsection \<open>Lemmas\<close>

text \<open>How the operations of a line change the registry: every graph
  operation the scanner applies is one of the steps of \<open>Graph.reachable\<close>.\<close>

lemma AddClass_registered: "AddClass n m f g = (p, g') \<Longrightarrow> registered g' p"
  by (cases "map_of (clist g) n")
     (auto simp: AddClass_fresh AddClass_known registered_def set_map_insert
           intro!: rev_image_eqI dest: map_of_SomeD)

lemma registered_AddClass: "registered g q \<Longrightarrow> registered (snd (AddClass n m f g)) q"
  by (cases "map_of (clist g) n")
     (auto simp: AddClass_fresh AddClass_known registered_def set_map_insert)

lemma clist_add_parent: "clist (add_parent c n f g) = clist (snd (AddClass n '''' f g))"
  by (simp add: add_parent_def split: prod.split)

lemma registered_add_parent: "registered g q \<Longrightarrow> registered (add_parent c n f g) q"
  using registered_AddClass [of g q n "''''" f]
  by (simp add: registered_def clist_add_parent)

lemma AddClass_reachable:
  "reachable g \<Longrightarrow> AddClass n m f g = (p, g') \<Longrightarrow> reachable g' \<and> registered g' p"
  using reachable_step [of g "OpAddClass n m f"] by (auto intro: AddClass_registered)

lemma parent_tokens_reachable:
  "reachable g \<Longrightarrow> registered g c \<Longrightarrow>
     reachable (parent_tokens c m ts g) \<and> registered (parent_tokens c m ts g) c"
proof (induction ts arbitrary: m g)
  case Nil
  then show ?case by simp
next
  case (Cons t ts)
  have ext: "reachable (add_parent c t ''_no_file_'' g) \<and> registered (add_parent c t ''_no_file_'' g) c"
    using Cons.prems reachable_step [of g "OpAddParent c t ''_no_file_''"]
    by (simp add: registered_add_parent)
  have imp: "reachable (add_implements c t g) \<and> registered (add_implements c t g) c"
    using Cons.prems reachable_step [of g "OpImplements c t"] by simp
  show ?case
    using Cons.IH [OF Cons.prems] Cons.IH [OF ext [THEN conjunct1] ext [THEN conjunct2]]
      Cons.IH [OF imp [THEN conjunct1] imp [THEN conjunct2]]
    by (cases m) auto
qed

lemma braces_graph: "braces st rest = Inr (st', rest') \<Longrightarrow> fc_graph st' = fc_graph st"
  by (auto simp: braces_def split: sum.splits prod.splits)

lemma braces_Inl_graph: "braces st rest = Inl (e, g) \<Longrightarrow> g = fc_graph st"
  by (auto simp: braces_def split: sum.splits prod.splits)

lemma record_class_graph:
  assumes "record_class filename st1 rest m rc e = Inr (st', r)"
  shows "fc_graph st' =
    parent_tokens (fst (AddClass (MakeFullClassName (fc_classNames st1) (fc_class_name st1)) m filename (fc_graph st1)))
      ModNone (Split (normalize_blanks (drop (length (fc_class_name st1)) rc)) '', '')
      (snd (AddClass (MakeFullClassName (fc_classNames st1) (fc_class_name st1)) m filename (fc_graph st1)))"
  using assms
  by (auto simp: record_class_def Let_def dest!: braces_graph split: if_splits sum.splits prod.splits)

lemma record_class_reachable:
  assumes r: "reachable (fc_graph st1)"
  shows "(record_class filename st1 rest m rc e = Inl (err, g) \<longrightarrow> reachable g) \<and>
         (record_class filename st1 rest m rc e = Inr (st', r') \<longrightarrow> reachable (fc_graph st'))"
proof -
  obtain p g1 where ac: "AddClass (MakeFullClassName (fc_classNames st1) (fc_class_name st1)) m filename
      (fc_graph st1) = (p, g1)" by fastforce
  have g1: "reachable g1 \<and> registered g1 p" using AddClass_reachable [OF r ac] .
  have pt: "reachable (parent_tokens p ModNone ts g1)" for ts
    using parent_tokens_reachable [of g1 p ModNone ts] g1 by simp
  show ?thesis
    using g1 pt
    by (auto simp: record_class_def Let_def ac braces_def split: if_splits sum.splits prod.splits)
qed

lemma process_line_cases:
  "process_line cfg filename st rest = Inr (st, rest) \<or>
   process_line cfg filename st rest = braces st rest \<or>
   (\<exists>n. process_line cfg filename st rest = braces (st\<lparr>fc_class_name := n\<rparr>) rest) \<or>
   (\<exists>n m rc e. process_line cfg filename st rest = record_class filename (st\<lparr>fc_class_name := n\<rparr>) rest m rc e)"
  unfolding process_line_def Let_def by (auto split: if_splits option.splits) blast+

lemma process_line_reachable:
  assumes r: "reachable (fc_graph st)"
  shows "(process_line cfg filename st rest = Inl (err, g) \<longrightarrow> reachable g) \<and>
         (process_line cfg filename st rest = Inr (st', r') \<longrightarrow> reachable (fc_graph st'))"
proof -
  have br: "(braces s rest = Inl (err, g) \<longrightarrow> reachable g) \<and>
      (braces s rest = Inr (st', r') \<longrightarrow> reachable (fc_graph st'))"
    if "fc_graph s = fc_graph st" for s
    using that r by (auto dest: braces_graph braces_Inl_graph)
  have rc: "(record_class filename (st\<lparr>fc_class_name := n\<rparr>) rest m rc e = Inl (err, g) \<longrightarrow> reachable g) \<and>
      (record_class filename (st\<lparr>fc_class_name := n\<rparr>) rest m rc e = Inr (st', r') \<longrightarrow> reachable (fc_graph st'))"
    for n m rc e
    using record_class_reachable [of "st\<lparr>fc_class_name := n\<rparr>"] r by simp
  show ?thesis
    using process_line_cases [of cfg filename st rest] br [of st] br [of "st\<lparr>fc_class_name := n\<rparr>" for n] rc r
    by auto
qed

lemma scan_file_reachable:
  "reachable (fc_graph st) \<Longrightarrow> reachable (snd (scan_file cfg filename st inp))"
proof (induction cfg filename st inp rule: scan_file.induct)
  case (1 cfg filename st inp)
  let ?r = "if fc_eof st then javaline_process (fc_reader st) (fc_line st) False []
            else getJavaline (fc_reader st) inp"
  show ?case
  proof (cases ?r)
    case (Inl e)
    then show ?thesis using "1.prems" by (simp add: scan_file.simps [of cfg filename st inp])
  next
    case (Inr x)
    obtain rd line good rest where x: "x = (rd, line, good, rest)" by (cases x)
    let ?st = "st\<lparr>fc_reader := rd, fc_line := line\<rparr>"
    have r: "reachable (fc_graph ?st)" using "1.prems" by simp
    show ?thesis
    proof (cases "good")
      case False
      then show ?thesis using Inr x "1.prems" by (simp add: scan_file.simps [of cfg filename st inp])
    next
      case True
      show ?thesis
      proof (cases "process_line cfg filename ?st rest")
        case (Inl eg)
        then show ?thesis using Inr x True process_line_reachable [OF r]
          by (cases eg) (simp add: scan_file.simps [of cfg filename st inp])
      next
        case (Inr sr)
        obtain st' rest' where sr: "sr = (st', rest')" by (cases sr)
        have "reachable (fc_graph st')" using process_line_reachable [OF r] Inr sr by blast
        then have "reachable (snd (scan_file cfg filename st' rest'))"
          using "1.IH" [OF \<open>?r = Inr x\<close> x [symmetric] refl refl _ Inr sr [symmetric]] True by simp
        then show ?thesis
          using Inr sr \<open>?r = Inr x\<close> x True by (simp add: scan_file.simps [of cfg filename st inp])
      qed
    qed
  qed
qed

subsection \<open>Properties\<close>

text \<open>C23: the registry produced by a declaration line does
  not depend on the lines read after it: the continuation lines appended to
  \<open>line\<close> only feed the brace loop, never the extends/implements tokens.\<close>

theorem continuation_ignored:
  "process_line cfg filename st rest1 = Inr (st1, r1) \<Longrightarrow>
   process_line cfg filename st rest2 = Inr (st2, r2) \<Longrightarrow> fc_graph st1 = fc_graph st2"
  by (auto simp: process_line_def Let_def dest!: braces_graph record_class_graph
      split: if_splits option.splits)

text \<open>C24: without option \<open>-A\<close>, a class whose modifiers
  do not contain \<open>public\<close> leaves the registry unchanged, whether the line is
  processed normally or an exception is thrown.\<close>

theorem non_public_not_recorded:
  assumes "\<not> allClasses cfg" and "class_match pub_mods (fc_line st) = Some (m, p, g4)"
    and "str_find m ''public'' 0 = None"
  shows "(case process_line cfg filename st rest of Inl (e, g) \<Rightarrow> g | Inr (st', r) \<Rightarrow> fc_graph st') =
         fc_graph st"
  using assms
  by (auto simp: process_line_def Let_def braces_def split: if_splits option.splits sum.splits prod.splits)

text \<open>C25: scanning a file, also when it ends with an
  exception, only applies the registry operations \<open>AddClass\<close>, \<open>add_parent\<close>
  and \<open>add_interface\<close> to registered classes: from a reachable registry it
  yields a reachable registry (so, by the invariant of theory \<open>Graph\<close>, a
  well-formed one).\<close>

theorem FindClassDefsInFile_reachable:
  "reachable g \<Longrightarrow> reachable (snd (FindClassDefsInFile cfg filepath file g))"
  by (auto simp: FindClassDefsInFile_def Let_def intro!: scan_file_reachable
      split: option.splits sum.splits)

subsection \<open>Witnesses\<close>

lemma continuation_ignored_witness:
  "\<exists>st1 r1 st2 r2.
     process_line \<lparr>allClasses = False, cset_java = False\<rparr> ''A.java''
       \<lparr>fc_reader = new_reader, fc_depth = 0, fc_classNames = [], fc_class_name = ''A'',
        fc_line = ''public class A extends B'', fc_eof = False, fc_graph = empty_graph\<rparr>
       (''{'' @ [NL]) = Inr (st1, r1) \<and>
     process_line \<lparr>allClasses = False, cset_java = False\<rparr> ''A.java''
       \<lparr>fc_reader = new_reader, fc_depth = 0, fc_classNames = [], fc_class_name = ''A'',
        fc_line = ''public class A extends B'', fc_eof = False, fc_graph = empty_graph\<rparr>
       ('' implements C {'' @ [NL]) = Inr (st2, r2) \<and>
     fc_graph st1 = fc_graph st2"
proof -
  let ?p = "process_line \<lparr>allClasses = False, cset_java = False\<rparr> ''A.java''
       \<lparr>fc_reader = new_reader, fc_depth = 0, fc_classNames = [], fc_class_name = ''A'',
        fc_line = ''public class A extends B'', fc_eof = False, fc_graph = empty_graph\<rparr>"
  have "\<not> isl (?p (''{'' @ [NL]))" by code_simp
  then obtain st1 r1 where p1: "?p (''{'' @ [NL]) = Inr (st1, r1)"
    by (cases "?p (''{'' @ [NL])") auto
  have "\<not> isl (?p ('' implements C {'' @ [NL]))" by code_simp
  then obtain st2 r2 where p2: "?p ('' implements C {'' @ [NL]) = Inr (st2, r2)"
    by (cases "?p ('' implements C {'' @ [NL])") auto
  show ?thesis using continuation_ignored [OF p1 p2] p1 p2 by blast
qed

lemma non_public_not_recorded_witness:
  "(case process_line \<lparr>allClasses = False, cset_java = False\<rparr> ''C.java''
       \<lparr>fc_reader = new_reader, fc_depth = 0, fc_classNames = [], fc_class_name = ''C'',
        fc_line = ''class C {'', fc_eof = False, fc_graph = empty_graph\<rparr> [] of
      Inl (e, g) \<Rightarrow> g | Inr (st', r) \<Rightarrow> fc_graph st') = empty_graph"
proof -
  have m: "class_match pub_mods ''class C {'' = Some ('''', 6, ''C {'')" by code_simp
  have s: "str_find '''' ''public'' 0 = None" by code_simp
  show ?thesis
    using non_public_not_recorded [of "\<lparr>allClasses = False, cset_java = False\<rparr>"
        "\<lparr>fc_reader = new_reader, fc_depth = 0, fc_classNames = [], fc_class_name = ''C'',
          fc_line = ''class C {'', fc_eof = False, fc_graph = empty_graph\<rparr>" "''''" 6 "''C {''"
        "''C.java''" "[]"] m s
    by simp
qed

lemma FindClassDefsInFile_reachable_witness:
  "reachable (snd (FindClassDefsInFile \<lparr>allClasses = False, cset_java = False\<rparr> ''A.java''
     (Some (''public class A extends B {}'' @ [NL])) empty_graph))"
  by (rule FindClassDefsInFile_reachable) (rule reachable_empty)

end
