(* ===== verification/Renderer.thy ===== *)
theory Renderer
  imports Graph
begin

text \<open>
  The printers of javatree.cpp that read the relation graph: the class tree
  of \<open>display_dependences\<close> (\<open>display_children\<close> with an indentation stack,
  for the graphics, text, space and HTML character sets), the JavaScript
  tree of the same function (\<open>cset == JAVA_CHAR\<close>: one \<open>d.add(id, pid,
  name, file)\<close> call per node, numbered by the static counter
  \<open>sNodeNum\<close>), \<open>count_children\<close>, \<open>display_interfaces\<close> and the table of
  \<open>display_names\<close>.  The output is the text written to \<open>stdout\<close>, as one
  string.  Both tree printers recurse over the children with no guard
  against cycles; their recursion depth is bounded by a fuel argument, and
  running out of fuel (the value \<open>None\<close>) stands for the recursion that does
  not end.
\<close>

subsection \<open>Character sets and their tables\<close>

text \<open>\<open>enum {GRAPHICS_CHAR, TEXT_CHAR, SPACE_CHAR, HTML_CHAR, JAVA_CHAR,
  VIZ_CHAR}\<close> and the static tables indexed by \<open>cset\<close>.  The tables have five
  entries; the tree printer is not called with \<open>VIZ_CHAR\<close>.\<close>

datatype charset = GRAPHICS_CHAR | TEXT_CHAR | SPACE_CHAR | HTML_CHAR | JAVA_CHAR | VIZ_CHAR

fun cset_index :: "charset \<Rightarrow> nat" where
  "cset_index GRAPHICS_CHAR = 0"
| "cset_index TEXT_CHAR = 1"
| "cset_index SPACE_CHAR = 2"
| "cset_index HTML_CHAR = 3"
| "cset_index JAVA_CHAR = 4"
| "cset_index VIZ_CHAR = 5"

definition tbl :: "string list \<Rightarrow> charset \<Rightarrow> string" where
  "tbl t cs = t ! cset_index cs"

definition none_tbl :: "string list" where
  "none_tbl = [''    '', ''    '', ''    '', ''<img src='' @ [SQ] @ ''n.png'' @ [SQ] @ ''>'', '''']"

definition more_tbl :: "string list" where
  "more_tbl = [''   '' @ [CHR 0xB3], ''   |'', ''    '', ''<img src='' @ [SQ] @ ''0.png'' @ [SQ] @ ''>'', '''']"

definition more_and_me_tbl :: "string list" where
  "more_and_me_tbl = [''   '' @ [CHR 0xC3], ''   +'', ''    '', ''<img src='' @ [SQ] @ ''2.png'' @ [SQ] @ ''>'', '''']"

definition just_me_tbl :: "string list" where
  "just_me_tbl = [''   '' @ [CHR 0xC0], ''   -'', ''    '', ''<img src='' @ [SQ] @ ''1.png'' @ [SQ] @ ''>'', '''']"

definition doc_classes :: "string list" where
  "doc_classes = (let dc = [NL] @ ''Class Tree'' @ [NL] in [dc, dc, dc, ''<table>'', ''''])"

definition doc_classesChild :: "string list" where
  "doc_classesChild = [CHR '':'' # '' '', CHR '':'' # '' '', CHR '':'' # '' '', ''<td>'', '''']"

definition doc_classesBLine :: "string list" where
  "doc_classesBLine = ['''', '''', '''', ''<tr><td>'', '''']"

definition doc_classesELine :: "string list" where
  "doc_classesELine = [[NL], [NL], [NL], ''</tr>'' @ [NL], '''']"

subsection \<open>Formatting helpers\<close>

text \<open>\<open>printf("%*.*s", w, w, s)\<close>: at most \<open>w\<close> characters of \<open>s\<close>, padded on
  the left with blanks to \<open>w\<close> (the width fits an \<open>int\<close>).\<close>

definition fmt_field :: "nat \<Rightarrow> string \<Rightarrow> string" where
  "fmt_field w s = replicate (w - length (take w s)) CHR '' '' @ take w s"

text \<open>\<open>cout << n\<close> for a non-negative number.\<close>

fun show_nat :: "nat \<Rightarrow> string" where
  "show_nat n = (if n < 10 then [char_of (48 + n)] else show_nat (n div 10) @ [char_of (48 + n mod 10)])"

text \<open>\<open>ReplaceAll(s, "<", "&lt;")\<close> (lstring.h) for a one-character pattern.\<close>

definition replace_char :: "char \<Rightarrow> string \<Rightarrow> string \<Rightarrow> string" where
  "replace_char c r s = concat (map (\<lambda>x. if x = c then r else [x]) s)"

text \<open>\<open>print_indent(indent)\<close>.\<close>

definition print_indent :: "string list \<Rightarrow> string" where
  "print_indent indent = concat indent"

text \<open>\<open>display_other_parents(parent_ptr, first_parent)\<close>: the parents other
  than the one the tree came from.\<close>

definition display_other_parents :: "graph \<Rightarrow> addr \<Rightarrow> addr list \<Rightarrow> string" where
  "display_other_parents g parent ps =
     concat (map (\<lambda>q. if q \<noteq> parent then ''  ('' @ my_name (objs g ! q) @ '')'' else []) ps)"

subsection \<open>The class tree\<close>

text \<open>\<open>display_children(indent, width, parent_ptr)\<close> over the children
  chain of \<open>parent_ptr\<close>: one line per child (file, indentation, name, other
  parents), then the subtree of the child with the indentation extended by
  \<open>more\<close> or \<open>none\<close> depending on whether a further child follows.  The
  first argument is the fuel: the number of nested calls still allowed.\<close>

fun display_children_txt ::
  "nat \<Rightarrow> charset \<Rightarrow> nat \<Rightarrow> graph \<Rightarrow> string list \<Rightarrow> addr \<Rightarrow> addr list \<Rightarrow> string option" where
  "display_children_txt 0 cs width g indent parent xs = None"
| "display_children_txt (Suc n) cs width g indent parent [] = Some []"
| "display_children_txt (Suc n) cs width g indent parent (c # rest) =
     (let crel = objs g ! c;
          line = tbl doc_classesBLine cs @ fmt_field width (my_file crel) @ tbl doc_classesChild cs @
                 print_indent (indent @ [if rest \<noteq> [] then tbl more_and_me_tbl cs else tbl just_me_tbl cs]) @
                 '' '' @ my_name crel @ display_other_parents g parent (my_parents crel) @
                 tbl doc_classesELine cs
      in case display_children_txt n cs width g
                (indent @ [if rest \<noteq> [] then tbl more_tbl cs else tbl none_tbl cs]) c (my_children crel) of
           None \<Rightarrow> None
         | Some sub \<Rightarrow>
             (case display_children_txt (Suc n) cs width g indent parent rest of
                None \<Rightarrow> None
              | Some after \<Rightarrow> Some (line @ sub @ after)))"

subsection \<open>Counting and interfaces\<close>

text \<open>\<open>count_interfaces(parent_ptr)\<close>: the interfaces not tagged
  \<open>file\<close>.\<close>

definition count_interfaces :: "graph \<Rightarrow> addr \<Rightarrow> nat" where
  "count_interfaces g p =
     length (filter (\<lambda>q. my_modifier (objs g ! q) \<noteq> ''file'') (my_interfaces (objs g ! p)))"

text \<open>\<open>count_children(parent_ptr, pparent_ptr)\<close> over the children of
  \<open>parent_ptr\<close>: one per child plus the count of the child's subtree, which
  starts with the child's interfaces under \<open>VIZ_CHAR\<close>.\<close>

fun count_list :: "nat \<Rightarrow> charset \<Rightarrow> graph \<Rightarrow> addr list \<Rightarrow> nat option" where
  "count_list 0 cs g xs = None"
| "count_list (Suc n) cs g [] = Some 0"
| "count_list (Suc n) cs g (c # rest) =
     (case count_list n cs g (my_children (objs g ! c)) of
        None \<Rightarrow> None
      | Some a \<Rightarrow>
          (case count_list (Suc n) cs g rest of
             None \<Rightarrow> None
           | Some b \<Rightarrow> Some (1 + ((if cs = VIZ_CHAR then count_interfaces g c else 0) + a) + b)))"

definition count_children :: "nat \<Rightarrow> charset \<Rightarrow> graph \<Rightarrow> addr \<Rightarrow> nat option" where
  "count_children n cs g p =
     map_option (\<lambda>a. (if cs = VIZ_CHAR then count_interfaces g p else 0) + a)
       (count_list n cs g (my_children (objs g ! p)))"

text \<open>\<open>display_interfaces(parentNum, width, parent_ptr)\<close>: the names
  joined by \<open>", "\<close>, or two GraphViz lines per interface; and their
  number.\<close>

fun join :: "string \<Rightarrow> string list \<Rightarrow> string" where
  "join sep [] = []"
| "join sep [x] = x"
| "join sep (x # y # zs) = x @ sep @ join sep (y # zs)"

definition display_interfaces :: "charset \<Rightarrow> graph \<Rightarrow> addr \<Rightarrow> string \<times> nat" where
  "display_interfaces cs g p =
     (let ifs = filter (\<lambda>q. my_modifier (objs g ! q) \<noteq> ''file'') (my_interfaces (objs g ! p));
          names = map (\<lambda>q. my_name (objs g ! q)) ifs
      in (if cs = VIZ_CHAR then
            concat (map (\<lambda>n. [DQ] @ n @ [DQ] @ ''  [style=filled, fillcolor=yellow] '' @ [NL] @
                             [DQ] @ n @ [DQ] @ '' -> '' @ [DQ] @ my_name (objs g ! p) @ [DQ] @
                             '' [color=red,penwidth=3.0] '' @ [NL]) names)
          else join '', '' names,
          length ifs))"

subsection \<open>The JavaScript tree\<close>

text \<open>One \<open>d.add(id, pid, name, file)\<close> call of the dtree script.\<close>

datatype js_add = JsAdd (js_id: nat) (js_pid: nat) (js_name: string) (js_file: string)

definition render_js :: "js_add \<Rightarrow> string" where
  "render_js e =
     ''d.add('' @ show_nat (js_id e) @ '','' @ show_nat (js_pid e) @ '','' @ [SQ] @
     replace_char CHR ''<'' ''&lt;'' (js_name e) @ [SQ] @ '','' @ [SQ] @ js_file e @ [SQ] @ '');'' @ [NL]"

text \<open>\<open>display_children(parentNum, width, parent_ptr, pparent_ptr)\<close> with
  \<open>cset == JAVA_CHAR\<close>, over the children chain: each child is numbered
  with the current \<open>sNodeNum\<close>, which \<open>display_children(sNodeNum++, ...)\<close>
  increments before the subtree is printed with the child as parent.  The
  result is the \<open>d.add\<close> calls in output order, the new \<open>sNodeNum\<close> and the
  returned \<open>nodeCnt\<close>.\<close>

fun display_children_js ::
  "nat \<Rightarrow> graph \<Rightarrow> nat \<Rightarrow> addr list \<Rightarrow> nat \<Rightarrow> (js_add list \<times> nat \<times> nat) option" where
  "display_children_js 0 g parentNum xs sNodeNum = None"
| "display_children_js (Suc n) g parentNum [] sNodeNum = Some ([], sNodeNum, 0)"
| "display_children_js (Suc n) g parentNum (c # rest) sNodeNum =
     (case display_children_js n g sNodeNum (my_children (objs g ! c)) (Suc sNodeNum) of
        None \<Rightarrow> None
      | Some (es, k1, m) \<Rightarrow>
          (case display_children_js (Suc n) g parentNum rest k1 of
             None \<Rightarrow> None
           | Some (es2, k2, m2) \<Rightarrow>
               Some (JsAdd sNodeNum parentNum (my_name (objs g ! c)) (my_file (objs g ! c)) # es @ es2,
                     k2, 1 + m + m2)))"

subsection \<open>The dependence listing\<close>

text \<open>The first loop of \<open>display_dependences\<close>: the file column is as wide
  as the longest file name, at least 14.\<close>

definition file_width :: "graph \<Rightarrow> nat" where
  "file_width g = foldl (\<lambda>w (k, p). max w (length (my_file (objs g ! p)))) 14 (clist g)"

text \<open>The second loop of \<open>display_dependences\<close> over the classes without
  parent, in \<open>clist\<close> order, for every character set but \<open>VIZ_CHAR\<close>: the
  root line and the tree below it, or the root's \<open>d.add(sNodeNum, 0, ...)\<close>
  and the JavaScript tree.\<close>

fun dd_roots :: "nat \<Rightarrow> charset \<Rightarrow> nat \<Rightarrow> graph \<Rightarrow> addr list \<Rightarrow> nat \<Rightarrow> (string \<times> nat) option" where
  "dd_roots fuel cs w g [] sNodeNum = Some ([], sNodeNum)"
| "dd_roots fuel cs w g (p # ps) sNodeNum =
     (let crel = objs g ! p in
      if cs = JAVA_CHAR then
        (case display_children_js fuel g sNodeNum (my_children crel) (Suc sNodeNum) of
           None \<Rightarrow> None
         | Some (es, k1, m) \<Rightarrow>
             (case dd_roots fuel cs w g ps k1 of
                None \<Rightarrow> None
              | Some (out, k2) \<Rightarrow>
                  Some (render_js (JsAdd sNodeNum 0 (my_name crel) (my_file crel)) @
                        concat (map render_js es) @ out, k2)))
      else
        (case display_children_txt fuel cs w g [] p (my_children crel) of
           None \<Rightarrow> None
         | Some sub \<Rightarrow>
             (case dd_roots fuel cs w g ps sNodeNum of
                None \<Rightarrow> None
              | Some (out, k2) \<Rightarrow>
                  Some (tbl doc_classesBLine cs @ fmt_field w (my_file crel) @ tbl doc_classesChild cs @
                        '' '' @ my_name crel @ tbl doc_classesELine cs @ sub @ out, k2))))"

text \<open>\<open>display_dependences()\<close> for the character sets other than
  \<open>VIZ_CHAR\<close> (which writes GraphViz files, see the header of
  \<open>Spec2Isabelle\<close>): the title, then the trees of the roots.\<close>

definition display_dependences_text :: "nat \<Rightarrow> charset \<Rightarrow> graph \<Rightarrow> nat \<Rightarrow> (string \<times> nat) option" where
  "display_dependences_text fuel cs g sNodeNum =
     map_option (\<lambda>(out, k). (tbl doc_classes cs @ out, k))
       (dd_roots fuel cs (file_width g) g (roots g) sNodeNum)"

text \<open>\<open>display_names()\<close>: a tab-separated table, one line per registered
  class in \<open>clist\<close> order, with the first parent, the first child and the
  interfaces.\<close>

definition display_names :: "charset \<Rightarrow> graph \<Rightarrow> string" where
  "display_names cs g =
     ''ClassName'' @ [TAB] @ ''Modifiers'' @ [TAB] @ ''FirstParent'' @ [TAB] @ ''FirstChild'' @ [TAB] @
     ''Interfaces'' @ [TAB] @ ''File'' @ [NL] @
     concat (map (\<lambda>(k, p).
        let c = objs g ! p
        in my_name c @ [TAB] @ my_modifier c @ [TAB] @
           (case my_parents c of [] \<Rightarrow> ''_NoParent_'' | q # _ \<Rightarrow> my_name (objs g ! q)) @ [TAB] @
           (case my_children c of [] \<Rightarrow> ''_NoChildren_'' | q # _ \<Rightarrow> my_name (objs g ! q)) @ [TAB] @
           fst (display_interfaces cs g p) @ [TAB] @ my_file c @ [NL]) (clist g))"

subsection \<open>Paths of the children relation\<close>

definition child_edges :: "graph \<Rightarrow> (addr \<times> addr) set" where
  "child_edges g = {(p, c). c \<in> set (my_children (objs g ! p))}"

subsection \<open>Lemmas\<close>


lemma children_valid:
  "graph_wf g \<Longrightarrow> q < length (objs g) \<Longrightarrow> c \<in> set (my_children (objs g ! q)) \<Longrightarrow> c < length (objs g)"
  by (auto simp: graph_wf_def edges_ok_def intro: registered_valid)

lemma display_children_txt_fuel:
  assumes "graph_wf g"
    and rk: "\<forall>q < length (objs g). \<forall>c \<in> set (my_children (objs g ! q)). rank c < rank q"
  shows "\<forall>c \<in> set xs. c < length (objs g) \<and> rank c < r \<Longrightarrow>
    \<exists>out. display_children_txt (Suc r) cs w g ind par xs = Some out"
proof (induction r arbitrary: xs ind par)
  case 0
  then show ?case by (cases xs) auto
next
  case (Suc r)
  then show ?case
  proof (induction xs)
    case Nil
    then show ?case by simp
  next
    case (Cons c rest)
    have c: "c < length (objs g)" "rank c < Suc r" using Cons.prems by auto
    have "\<forall>d \<in> set (my_children (objs g ! c)). d < length (objs g) \<and> rank d < r"
      using c rk children_valid [OF assms(1) c(1)] by fastforce
    then obtain sub where "display_children_txt (Suc r) cs w g
        (ind @ [if rest \<noteq> [] then tbl more_tbl cs else tbl none_tbl cs]) c (my_children (objs g ! c)) = Some sub"
      using Suc.IH by blast
    moreover obtain after where "display_children_txt (Suc (Suc r)) cs w g ind par rest = Some after"
      using Cons.IH Cons.prems by auto
    ultimately show ?case by (simp add: Let_def)
  qed
qed

lemma display_children_txt_None:
  "c \<in> set xs \<Longrightarrow> (\<And>ind'. display_children_txt n cs w g ind' c (my_children (objs g ! c)) = None) \<Longrightarrow>
     display_children_txt (Suc n) cs w g ind par xs = None"
  by (induction xs) (auto simp: Let_def split: option.split)

lemma on_cycle_child:
  assumes "(a, b) \<in> (child_edges g)\<^sup>*" and "(b, b) \<in> (child_edges g)\<^sup>+"
  obtains c where "c \<in> set (my_children (objs g ! a))" "(c, b) \<in> (child_edges g)\<^sup>*"
proof (cases "a = b")
  case True
  with assms(2) obtain c where "(a, c) \<in> child_edges g" "(c, b) \<in> (child_edges g)\<^sup>*"
    by (auto dest: tranclD)
  then show ?thesis using that by (auto simp: child_edges_def)
next
  case False
  with assms(1) obtain c where "(a, c) \<in> child_edges g" "(c, b) \<in> (child_edges g)\<^sup>*"
    by (auto elim: converse_rtranclE)
  then show ?thesis using that by (auto simp: child_edges_def)
qed

lemma txt_cycle_None:
  assumes "(p, q) \<in> (child_edges g)\<^sup>*" and "(q, q) \<in> (child_edges g)\<^sup>+"
  shows "display_children_txt n cs w g ind p (my_children (objs g ! p)) = None"
  using assms(1)
proof (induction n arbitrary: p ind)
  case 0
  then show ?case by simp
next
  case (Suc n)
  obtain c where "c \<in> set (my_children (objs g ! p))" "(c, q) \<in> (child_edges g)\<^sup>*"
    using on_cycle_child [OF Suc.prems assms(2)] .
  then show ?case using Suc.IH by (intro display_children_txt_None) auto
qed

lemma upt_append: "i \<le> j \<Longrightarrow> j \<le> k \<Longrightarrow> [i..<j] @ [j..<k] = [i..<k]"
  using upt_add_eq_append [of i j "k - j"] by simp

lemma display_children_js_fuel:
  assumes "graph_wf g"
    and rk: "\<forall>q < length (objs g). \<forall>c \<in> set (my_children (objs g ! q)). rank c < rank q"
  shows "\<forall>c \<in> set xs. c < length (objs g) \<and> rank c < r \<Longrightarrow>
    \<exists>res. display_children_js (Suc r) g pn xs k = Some res"
proof (induction r arbitrary: xs pn k)
  case 0
  then show ?case by (cases xs) auto
next
  case (Suc r)
  then show ?case
  proof (induction xs arbitrary: k)
    case Nil
    then show ?case by simp
  next
    case (Cons c rest)
    have c: "c < length (objs g)" "rank c < Suc r" using Cons.prems by auto
    have "\<forall>d \<in> set (my_children (objs g ! c)). d < length (objs g) \<and> rank d < r"
      using c rk children_valid [OF assms(1) c(1)] by fastforce
    then obtain es k1 m where "display_children_js (Suc r) g k (my_children (objs g ! c)) (Suc k) = Some (es, k1, m)"
      using Suc.IH by (metis prod_cases3)
    moreover have "\<forall>c \<in> set rest. c < length (objs g) \<and> rank c < Suc r" using Cons.prems by simp
    then obtain res where "display_children_js (Suc (Suc r)) g pn rest k1 = Some res"
      using Cons.IH [OF Suc.IH] by blast
    ultimately show ?case by (cases res) simp
  qed
qed

lemma display_children_js_None:
  "c \<in> set xs \<Longrightarrow> (\<And>pn' k'. display_children_js n g pn' (my_children (objs g ! c)) k' = None) \<Longrightarrow>
     display_children_js (Suc n) g pn xs k = None"
proof (induction xs arbitrary: k)
  case (Cons x xs)
  then show ?case by (cases "x = c") (auto split: option.split prod.split)
qed simp

lemma js_cycle_None:
  assumes "(p, q) \<in> (child_edges g)\<^sup>*" and "(q, q) \<in> (child_edges g)\<^sup>+"
  shows "display_children_js n g pn (my_children (objs g ! p)) k = None"
  using assms(1)
proof (induction n arbitrary: p pn k)
  case 0
  then show ?case by simp
next
  case (Suc n)
  obtain c where "c \<in> set (my_children (objs g ! p))" "(c, q) \<in> (child_edges g)\<^sup>*"
    using on_cycle_child [OF Suc.prems assms(2)] .
  then show ?case using Suc.IH by (intro display_children_js_None) auto
qed

lemma dd_roots_fuel:
  assumes "graph_wf g"
    and rk: "\<forall>q < length (objs g). \<forall>c \<in> set (my_children (objs g ! q)). rank c < rank q"
    and bound: "\<forall>q < length (objs g). rank q \<le> R"
  shows "\<forall>p \<in> set ps. p < length (objs g) \<Longrightarrow> \<exists>res. dd_roots (Suc R) cs w g ps k = Some res"
proof (induction ps arbitrary: k)
  case Nil
  then show ?case by simp
next
  case (Cons p ps)
  have p: "p < length (objs g)" using Cons.prems by simp
  have ch: "\<forall>c \<in> set (my_children (objs g ! p)). c < length (objs g) \<and> rank c < R"
    using p rk bound children_valid [OF assms(1) p] by (meson order_less_le_trans)
  show ?case
  proof (cases "cs = JAVA_CHAR")
    case True
    obtain es k1 m where "display_children_js (Suc R) g k (my_children (objs g ! p)) (Suc k) = Some (es, k1, m)"
      using display_children_js_fuel [OF assms(1) rk ch] by (metis prod_cases3)
    moreover have "\<forall>p \<in> set ps. p < length (objs g)" using Cons.prems by simp
    then obtain res where "dd_roots (Suc R) cs w g ps k1 = Some res" using Cons.IH by blast
    ultimately show ?thesis using True by (cases res) (simp add: Let_def)
  next
    case False
    obtain sub where "display_children_txt (Suc R) cs w g [] p (my_children (objs g ! p)) = Some sub"
      using display_children_txt_fuel [OF assms(1) rk ch] by blast
    moreover have "\<forall>p \<in> set ps. p < length (objs g)" using Cons.prems by simp
    then obtain res where "dd_roots (Suc R) cs w g ps k = Some res" using Cons.IH by blast
    ultimately show ?thesis using False by (cases res) (simp add: Let_def)
  qed
qed

lemma roots_valid: "graph_wf g \<Longrightarrow> p \<in> set (roots g) \<Longrightarrow> p < length (objs g)"
  by (auto simp: roots_def graph_wf_def intro: registry_snd_valid)

lemma dd_roots_None:
  "p \<in> set ps \<Longrightarrow>
   (\<And>pn k'. display_children_js n g pn (my_children (objs g ! p)) k' = None) \<Longrightarrow>
   (\<And>ind. display_children_txt n cs w g ind p (my_children (objs g ! p)) = None) \<Longrightarrow>
   dd_roots n cs w g ps k = None"
proof (induction ps arbitrary: k)
  case (Cons x ps)
  then show ?case by (cases "x = p") (auto simp: Let_def split: option.split prod.split)
qed simp

subsection \<open>Properties\<close>

text \<open>C26: when the children relation of a well-formed registry is ranked (every
  child has a smaller rank than its parent, as in any acyclic registry), the listing
  of \<open>display_dependences\<close> ends: a recursion depth one above the largest rank
  suffices, for the text trees and the JavaScript tree alike.\<close>

theorem listing_terminates:
  assumes "graph_wf g"
    and "\<forall>q < length (objs g). \<forall>c \<in> set (my_children (objs g ! q)). rank c < rank q"
    and "\<forall>q < length (objs g). rank q \<le> R"
  shows "\<exists>out k'. display_dependences_text (Suc R) cs g k = Some (out, k')"
  using dd_roots_fuel [OF assms, of "roots g" cs "file_width g" k] roots_valid [OF assms(1)]
  by (auto simp: display_dependences_text_def)

text \<open>C27: \<open>display_children\<close> has no guard against
  cycles: if a root of the listing reaches a class that is its own descendant, no
  recursion depth suffices, i.e. \<open>display_dependences\<close> recurses until the stack
  overflows.\<close>

theorem listing_cycle_diverges:
  assumes "p \<in> set (roots g)" and "(p, q) \<in> (child_edges g)\<^sup>*" and "(q, q) \<in> (child_edges g)\<^sup>+"
  shows "display_dependences_text n cs g k = None"
  using dd_roots_None [OF assms(1)] js_cycle_None [OF assms(2,3)] txt_cycle_None [OF assms(2,3)]
  by (simp add: display_dependences_text_def)

text \<open>C28: the JavaScript tree is well numbered: the nodes get
  the consecutive numbers \<open>sNodeNum, sNodeNum + 1, ...\<close> in output order, the returned
  \<open>nodeCnt\<close> is the number of nodes printed, and the parent number of every node is
  the parent passed in or the number of a node printed before it.\<close>

theorem js_numbering:
  "display_children_js n g pn xs k = Some (es, k', m) \<Longrightarrow>
     map js_id es = [k..<k'] \<and> k \<le> k' \<and> m = length es \<and>
     (\<forall>e \<in> set es. js_pid e = pn \<or> js_pid e \<in> {k..<js_id e})"
proof (induction n g pn xs k arbitrary: es k' m rule: display_children_js.induct)
  case (3 n g pn c rest k)
  obtain es1 k1 m1 where r1: "display_children_js n g k (my_children (objs g ! c)) (Suc k) = Some (es1, k1, m1)"
    using "3.prems" by (auto split: option.splits)
  obtain es2 k2 m2 where r2: "display_children_js (Suc n) g pn rest k1 = Some (es2, k2, m2)"
    using "3.prems" r1 by (auto split: option.splits)
  have es: "es = JsAdd k pn (my_name (objs g ! c)) (my_file (objs g ! c)) # es1 @ es2"
    "k' = k2" "m = 1 + m1 + m2" using "3.prems" r1 r2 by auto
  have i1: "map js_id es1 = [Suc k..<k1]" "Suc k \<le> k1" "m1 = length es1"
    "\<forall>e \<in> set es1. js_pid e = k \<or> js_pid e \<in> {Suc k..<js_id e}"
    using "3.IH"(1) [OF r1] by auto
  have i2: "map js_id es2 = [k1..<k2]" "k1 \<le> k2" "m2 = length es2"
    "\<forall>e \<in> set es2. js_pid e = pn \<or> js_pid e \<in> {k1..<js_id e}"
    using "3.IH"(2) [OF r1 refl refl r2] by auto
  have ids1: "js_id e \<in> {Suc k..<k1}" if "e \<in> set es1" for e
    using that i1(1) by (metis atLeastLessThan_upt image_eqI list.set_map)
  have "map js_id es = k # [Suc k..<k1] @ [k1..<k2]" using es i1 i2 by simp
  also have "\<dots> = [k..<k2]" using i1(2) i2(2) by (simp add: upt_append upt_conv_Cons)
  finally have "map js_id es = [k..<k']" using es by simp
  moreover have "\<forall>e \<in> set es. js_pid e = pn \<or> js_pid e \<in> {k..<js_id e}"
    using i1(4) i2(4) ids1 i1(2) es(1) by fastforce
  ultimately show ?case using es i1 i2 by simp
qed auto


subsection \<open>Witnesses\<close>

lemma listing_terminates_witness:
  "\<exists>out k'. display_dependences_text (Suc 1) TEXT_CHAR (fold graph_step ab_ops empty_graph) 1 = Some (out, k')"
proof -
  have h1: "\<forall>q < length (objs (fold graph_step ab_ops empty_graph)).
      \<forall>c \<in> set (my_children (objs (fold graph_step ab_ops empty_graph) ! q)).
        (if c = 1 then 1 else (0::nat)) < (if q = 1 then 1 else 0)"
    by code_simp
  have h2: "\<forall>q < length (objs (fold graph_step ab_ops empty_graph)). (if q = 1 then 1 else (0::nat)) \<le> 1"
    by simp
  show ?thesis by (rule listing_terminates [OF ab_wf h1 h2])
qed

lemma listing_cycle_diverges_witness:
  "display_dependences_text 7 TEXT_CHAR
     (add_parent 2 ''A'' ''_no_file_'' (add_parent 1 ''B'' ''_no_file_'' (add_parent 1 ''R'' ''_no_file_''
       (snd (AddClass ''A'' ''public '' ''A.java'' (snd (AddClass ''R'' ''public '' ''R.java'' empty_graph))))))) 1 = None"
proof -
  let ?g = "add_parent 2 ''A'' ''_no_file_'' (add_parent 1 ''B'' ''_no_file_'' (add_parent 1 ''R'' ''_no_file_''
       (snd (AddClass ''A'' ''public '' ''A.java'' (snd (AddClass ''R'' ''public '' ''R.java'' empty_graph))))))"
  have r: "0 \<in> set (roots ?g)" by code_simp
  have e01: "1 \<in> set (my_children (objs ?g ! 0))" by code_simp
  have e12: "2 \<in> set (my_children (objs ?g ! 1))" by code_simp
  have e21: "1 \<in> set (my_children (objs ?g ! 2))" by code_simp
  have p: "(0, 1) \<in> (child_edges ?g)\<^sup>*" using e01 by (auto simp: child_edges_def)
  have "(1, 2) \<in> child_edges ?g" "(2, 1) \<in> child_edges ?g" using e12 e21 by (auto simp: child_edges_def)
  then have q: "(1, 1) \<in> (child_edges ?g)\<^sup>+" by (meson trancl.trancl_into_trancl r_into_trancl)
  show ?thesis using listing_cycle_diverges [OF r p q] .
qed

lemma js_numbering_witness:
  "display_children_js 3 (fold graph_step ab_ops empty_graph) 1
     (my_children (objs (fold graph_step ab_ops empty_graph) ! 1)) 2 = Some ([JsAdd 2 1 ''A'' ''A.java''], 3, 1) \<and>
   map js_id [JsAdd 2 1 ''A'' ''A.java''] = [2..<3]"
proof -
  have r: "display_children_js 3 (fold graph_step ab_ops empty_graph) 1
     (my_children (objs (fold graph_step ab_ops empty_graph) ! 1)) 2 = Some ([JsAdd 2 1 ''A'' ''A.java''], 3, 1)"
    by code_simp
  show ?thesis using js_numbering [OF r] r by simp
qed


end
