(* ===== verification/Tabular.thy ===== *)
theory Tabular
  imports Extractor
begin

text \<open>
  The table scanner \<open>TabularListOfInFile\<close> of javatree.cpp (option
  \<open>-T\<close>) and the printer \<open>outputHtmlTableList\<close>.  The scanner is a copy of
  \<open>FindClassDefsInFile\<close> (theory \<open>Extractor\<close>) with three differences: a
  line matching \<open>package_p\<close> sets the current package, a public class is
  appended to \<open>tableList\<close> as a \<open>TableItem\<close> instead of entering the
  registry (the extends/implements loop is still run but all its actions are
  commented out, so it has no effect), and a file is accepted when its path
  contains \<open>.java\<close> anywhere (\<open>strstr\<close>), not only at the end.  The theory
  shows that the two scanners take the same path through every file: for a
  path accepted by both they return the same result.
\<close>

subsection \<open>Table items and the package pattern\<close>

record table_item =
  ti_package :: string
  ti_className :: string
  ti_fullClassName :: string
  ti_modifier :: string
  ti_filename :: string

definition is_pkg_char :: "char \<Rightarrow> bool" where
  "is_pkg_char c \<longleftrightarrow> is_alpha c \<or> (CHR ''0'' \<le> c \<and> c \<le> CHR ''9'') \<or> c = CHR ''_'' \<or> c = CHR ''.''"

text \<open>\<open>std::regex_match(line, matchs, package_p)\<close> with
  \<open>package[ \t]+([A-Za-z0-9_.]+);\<close>: the whole line must match, so there is
  no blank before \<open>package\<close> or after the \<open>;\<close>.  The result is group 1.\<close>

definition package_match :: "string \<Rightarrow> string option" where
  "package_match line =
     (if take 7 line = ''package'' then
        (let r = drop 7 line;
             b = length (takeWhile is_tb r);
             s = drop b r
         in if 0 < b \<and> s \<noteq> [] \<and> last s = CHR '';'' \<and> butlast s \<noteq> [] \<and> (\<forall>c\<in>set (butlast s). is_pkg_char c)
            then Some (butlast s) else None)
      else None)"

subsection \<open>The scanner\<close>

record tab_state =
  tb_reader :: java_reader
  tb_depth :: int
  tb_classNames :: "string list"
  tb_class_name :: string
  tb_line :: string
  tb_eof :: bool
  tb_package :: string
  tb_table :: "table_item list"

text \<open>The brace loop at the end of the loop body.\<close>

definition tab_braces :: "tab_state \<Rightarrow> string \<Rightarrow> (jt_error \<times> table_item list) + (tab_state \<times> string)" where
  "tab_braces st rest =
     (case brace_loop (tb_class_name st) (tb_line st) (tb_depth st) (tb_classNames st) of
        Inl e \<Rightarrow> Inl (e, tb_table st)
      | Inr (depth, classNames) \<Rightarrow> Inr (st\<lparr>tb_depth := depth, tb_classNames := classNames\<rparr>, rest))"

text \<open>A public (or, with \<open>-A\<close>, any) class: its \<open>TableItem\<close> is pushed, then
  the continuation lines are read as in \<open>FindClassDefsInFile\<close>.\<close>

definition tab_record_class ::
  "string \<Rightarrow> tab_state \<Rightarrow> string \<Rightarrow> string \<Rightarrow> char \<Rightarrow>
     (jt_error \<times> table_item list) + (tab_state \<times> string)" where
  "tab_record_class filename st1 rest class_modifier endChar =
     (let class_name = tb_class_name st1;
          item = \<lparr>ti_package = tb_package st1, ti_className = class_name,
                  ti_fullClassName = MakeFullClassName (tb_classNames st1) class_name,
                  ti_modifier = class_modifier, ti_filename = filename\<rparr>;
          table = tb_table st1 @ [item]
      in case (if endChar \<noteq> CHR ''{'' then read_more (tb_reader st1) (tb_line st1) rest
               else Inr (tb_reader st1, tb_line st1, rest, False)) of
           Inl e \<Rightarrow> Inl (e, table)
         | Inr (rd', line', rest', eof) \<Rightarrow>
             tab_braces (st1\<lparr>tb_reader := rd', tb_line := line', tb_eof := eof, tb_table := table\<rparr>) rest')"

definition tab_process_line ::
  "jt_config \<Rightarrow> string \<Rightarrow> tab_state \<Rightarrow> string \<Rightarrow> (jt_error \<times> table_item list) + (tab_state \<times> string)" where
  "tab_process_line cfg filename st rest =
     (let line = tb_line st in
      if 4096 \<le> length line \<or> length line \<le> 0 then Inr (st, rest)
      else
        (case package_match line of
           Some packageName \<Rightarrow> tab_braces (st\<lparr>tb_package := packageName\<rparr>) rest
         | None \<Rightarrow>
        (case class_match (if allClasses cfg then all_mods else pub_mods) line of
           None \<Rightarrow> tab_braces st rest
         | Some (class_modifier, pos4, group4) \<Rightarrow>
             (let endIdx = (case find_first_of line '';{'' of None \<Rightarrow> length line | Some i \<Rightarrow> i);
                  endChar = (case find_first_of line '';{'' of None \<Rightarrow> CHR '' '' | Some i \<Rightarrow> line ! i)
              in if endChar = CHR '';'' then Inr (st, rest)
                 else
                   (let rightClass = normalize_blanks (replace_tab (take (endIdx - pos4) group4));
                        class_name = first_token (Split rightClass '' '');
                        st1 = st\<lparr>tb_class_name := class_name\<rparr>
                    in if allClasses cfg \<or> str_find class_modifier ''public'' 0 \<noteq> None then
                         tab_record_class filename st1 rest class_modifier endChar
                       else tab_braces st1 rest)))))"

lemma tab_braces_rest: "tab_braces st rest = Inr (st', rest') \<Longrightarrow> rest' = rest"
  by (auto simp: tab_braces_def split: sum.splits prod.splits)

lemma tab_record_class_rest:
  "tab_record_class filename st rest m e = Inr (st', rest') \<Longrightarrow> length rest' \<le> length rest"
  by (auto simp: tab_record_class_def Let_def dest!: tab_braces_rest read_more_rest
      split: if_splits sum.splits prod.splits)

lemma tab_process_line_rest:
  "tab_process_line cfg filename st rest = Inr (st', rest') \<Longrightarrow> length rest' \<le> length rest"
  by (auto simp: tab_process_line_def Let_def dest!: tab_braces_rest tab_record_class_rest
      split: if_splits option.splits)

lemma next_line_shorter:
  assumes "(if eof then javaline_process rd0 line0 False [] else getJavaline rd0 inp) = Inr (rd, line, good, rest)"
    and "good"
  shows "length rest < length inp"
proof -
  have "\<not> eof"
  proof
    assume eof
    then have "javaline_process rd0 line0 False [] = Inr (rd, line, good, rest)" using assms(1) by simp
    then show False using javaline_process_not_good assms(2) by blast
  qed
  then show ?thesis using assms getJavaline_rest by auto
qed

function tab_scan_file :: "jt_config \<Rightarrow> string \<Rightarrow> tab_state \<Rightarrow> string \<Rightarrow> bool \<times> table_item list" where
  "tab_scan_file cfg filename st inp =
     (case (if tb_eof st then javaline_process (tb_reader st) (tb_line st) False []
            else getJavaline (tb_reader st) inp) of
        Inl e \<Rightarrow> (False, tb_table st)
      | Inr (rd, line, good, rest) \<Rightarrow>
          if \<not> good then (True, tb_table st)
          else
            (case tab_process_line cfg filename (st\<lparr>tb_reader := rd, tb_line := line\<rparr>) rest of
               Inl (e, t) \<Rightarrow> (False, t)
             | Inr (st', rest') \<Rightarrow> tab_scan_file cfg filename st' rest'))"
  by pat_completeness auto
termination
  by (relation "measure (\<lambda>(cfg, filename, st, inp). length inp)")
     (auto dest!: next_line_shorter tab_process_line_rest)

declare tab_scan_file.simps [simp del]

text \<open>\<open>TabularListOfInFile(filepath)\<close> on the table \<open>tableList\<close> built so
  far; \<open>file\<close> is the content of the file, \<open>None\<close> when it cannot be
  opened.\<close>

definition TabularListOfInFile ::
  "jt_config \<Rightarrow> string \<Rightarrow> string option \<Rightarrow> table_item list \<Rightarrow> bool \<times> table_item list" where
  "TabularListOfInFile cfg filepath file tbl =
     (if str_find filepath ''.java'' 0 = None then (False, tbl)
      else
        (case file of
           None \<Rightarrow> (False, tbl)
         | Some inp \<Rightarrow>
             (let filename0 = ([] :: string);
                  filename = (if cset_java cfg then FilePathToURL filepath
                              else (case last_index_of filename0 (CHR ''/'') of
                                      Some i \<Rightarrow> drop (Suc i) filename0
                                    | None \<Rightarrow> filepath))
              in case initial_class_name filepath of
                   Inl e \<Rightarrow> (False, tbl)
                 | Inr class_name \<Rightarrow>
                     tab_scan_file cfg filename
                       \<lparr>tb_reader = new_reader, tb_depth = 0, tb_classNames = [],
                        tb_class_name = class_name, tb_line = [], tb_eof = False,
                        tb_package = [], tb_table = tbl\<rparr> inp)))"

subsection \<open>The HTML table\<close>

text \<open>\<open>outputHtmlTableList()\<close>; \<open>now\<close> is the text of \<open>ctime(&nowTime)\<close>,
  which ends with a newline.\<close>

definition outputHtmlTableList :: "string \<Rightarrow> table_item list \<Rightarrow> string" where
  "outputHtmlTableList now tbl =
     ''<table id='' @ [SQ] @ ''gradient-style'' @ [SQ] @ '' summary='' @ [SQ] @ ''display'' @ [SQ] @
     '' ellspacing='' @ [SQ] @ ''0'' @ [SQ] @ '' width='' @ [SQ] @ ''100%'' @ [SQ] @ ''  >'' @ [NL] @
     ''<thead>'' @ [NL] @ ''<tr>'' @ [NL] @
     concat (map (\<lambda>h. ''<th scope='' @ [SQ] @ ''col'' @ [SQ] @ ''>'' @ h @ ''</th> '' @ [NL])
       [''Pakcage'', ''FullClassName'', ''ClassName'', ''Modifiers'', ''Filename'']) @
     ''</tr>'' @ [NL] @ ''</thead>'' @ [NL] @ ''<tfoot>'' @ [NL] @ ''<tr>'' @ [NL] @
     ''<td colspan='' @ [SQ] @ ''5'' @ [SQ] @ ''>Class List by Dennis Lang '' @ now @ ''</td> '' @ [NL] @
     ''</tr> '' @ [NL] @ ''</tfoot> '' @ [NL] @ ''<tbody>'' @ [NL] @
     concat (map (\<lambda>item. ''<tr>'' @ '' <td>'' @ ti_package item @ '' <td>'' @ ti_fullClassName item @
                          '' <td>'' @ ti_className item @ '' <td>'' @ ti_modifier item @
                          '' <td>'' @ ti_filename item @ [NL]) tbl) @
     ''</tbody>'' @ [NL] @ ''</table>'' @ [NL]"

subsection \<open>The two scanners in lock step\<close>

text \<open>The members of the two loop states that decide the control flow: the
  reader, the brace depth, the name stack, the current class name, the line and
  the end-of-input flag.  \<open>sim_result\<close> relates the outcomes of one loop
  body: both throw, or both continue with related states and the same unread
  input.\<close>

definition same_control :: "fc_state \<Rightarrow> tab_state \<Rightarrow> bool" where
  "same_control s t \<longleftrightarrow>
     fc_reader s = tb_reader t \<and> fc_depth s = tb_depth t \<and> fc_classNames s = tb_classNames t \<and>
     fc_class_name s = tb_class_name t \<and> fc_line s = tb_line t \<and> fc_eof s = tb_eof t"

fun sim_result :: "(jt_error \<times> graph) + (fc_state \<times> string) \<Rightarrow> (jt_error \<times> table_item list) + (tab_state \<times> string) \<Rightarrow> bool" where
  "sim_result (Inl a) (Inl b) = True"
| "sim_result (Inr (s, r)) (Inr (t, r')) = (r = r' \<and> same_control s t)"
| "sim_result _ _ = False"

subsection \<open>Lemmas\<close>

lemma pkg_not_tb: "is_pkg_char c \<Longrightarrow> \<not> is_tb c"
  by (auto simp: is_pkg_char_def is_tb_def is_alpha_def)

lemma package_not_class:
  assumes "package_match line = Some pk" and "mods = pub_mods \<or> mods = all_mods"
  shows "class_match mods line = None"
proof -
  obtain r where l: "line = ''package'' @ r"
    using assms(1) by (metis append_take_drop_id option.distinct(1) package_match_def)
  have "mod_word mods line = None"
    using assms(2) by (auto simp: l mod_word_def pub_mods_def all_mods_def)
  then have "mods_run mods line = 0" by (simp add: mods_run.simps [of mods line])
  then show ?thesis by (simp add: class_match_def Let_def l is_tb_def)
qed

lemma braces_sim: "same_control s t \<Longrightarrow> sim_result (braces s rest) (tab_braces t rest)"
  by (auto simp: braces_def tab_braces_def same_control_def split: sum.split prod.split)

lemma record_class_sim:
  "same_control s t \<Longrightarrow> sim_result (record_class fn s rest m rc e) (tab_record_class fn t rest m e)"
proof -
  assume sc: "same_control s t"
  have rm: "(if e \<noteq> CHR ''{'' then read_more (fc_reader s) (fc_line s) rest else Inr (fc_reader s, fc_line s, rest, False)) =
            (if e \<noteq> CHR ''{'' then read_more (tb_reader t) (tb_line t) rest else Inr (tb_reader t, tb_line t, rest, False))"
    using sc by (simp add: same_control_def)
  show ?thesis
  proof (cases "if e \<noteq> CHR ''{'' then read_more (fc_reader s) (fc_line s) rest else Inr (fc_reader s, fc_line s, rest, False)")
    case (Inl x)
    then show ?thesis using rm
      by (simp add: record_class_def tab_record_class_def Let_def split: prod.split)
  next
    case (Inr y)
    obtain rd l r eof where y: "y = (rd, l, r, eof)" by (cases y)
    have "same_control (s\<lparr>fc_reader := rd, fc_line := l, fc_eof := eof, fc_graph := g\<rparr>)
                       (t\<lparr>tb_reader := rd, tb_line := l, tb_eof := eof, tb_table := tb\<rparr>)" for g tb
      using sc by (simp add: same_control_def)
    then show ?thesis using Inr rm y braces_sim
      by (simp add: record_class_def tab_record_class_def Let_def split: prod.split)
  qed
qed

lemma process_line_sim:
  assumes sc: "same_control s t"
  shows "sim_result (process_line cfg fn s rest) (tab_process_line cfg fn t rest)"
proof -
  have l: "fc_line s = tb_line t" using sc by (simp add: same_control_def)
  have upd: "same_control (s\<lparr>fc_class_name := n\<rparr>) (t\<lparr>tb_class_name := n\<rparr>)" for n
    using sc by (simp add: same_control_def)
  show ?thesis
  proof (cases "package_match (tb_line t)")
    case (Some pk)
    have "class_match (if allClasses cfg then all_mods else pub_mods) (fc_line s) = None"
      using package_not_class [OF Some [folded l]] by simp
    moreover have "same_control s (t\<lparr>tb_package := pk\<rparr>)" using sc by (simp add: same_control_def)
    ultimately show ?thesis using Some l sc braces_sim
      by (simp add: process_line_def tab_process_line_def Let_def)
  next
    case None
    then show ?thesis using l sc upd braces_sim record_class_sim
      by (simp add: process_line_def tab_process_line_def Let_def split: option.split prod.split)
  qed
qed

lemma scan_file_sim:
  "same_control s t \<Longrightarrow> fst (scan_file cfg fn s inp) = fst (tab_scan_file cfg fn t inp)"
proof (induction cfg fn s inp arbitrary: t rule: scan_file.induct)
  case (1 cfg fn s inp)
  have eq: "(if fc_eof s then javaline_process (fc_reader s) (fc_line s) False [] else getJavaline (fc_reader s) inp) =
            (if tb_eof t then javaline_process (tb_reader t) (tb_line t) False [] else getJavaline (tb_reader t) inp)"
    using "1.prems" by (simp add: same_control_def)
  show ?case
  proof (cases "if fc_eof s then javaline_process (fc_reader s) (fc_line s) False [] else getJavaline (fc_reader s) inp")
    case (Inl e)
    then show ?thesis using eq
      by (simp add: scan_file.simps [of cfg fn s inp] tab_scan_file.simps [of cfg fn t inp])
  next
    case (Inr x)
    obtain rd line good rest where x: "x = (rd, line, good, rest)" by (cases x)
    have sc': "same_control (s\<lparr>fc_reader := rd, fc_line := line\<rparr>) (t\<lparr>tb_reader := rd, tb_line := line\<rparr>)"
      using "1.prems" by (simp add: same_control_def)
    have sim: "sim_result (process_line cfg fn (s\<lparr>fc_reader := rd, fc_line := line\<rparr>) rest)
                          (tab_process_line cfg fn (t\<lparr>tb_reader := rd, tb_line := line\<rparr>) rest)"
      by (rule process_line_sim [OF sc'])
    show ?thesis
    proof (cases good)
      case False
      then show ?thesis using Inr x eq
        by (simp add: scan_file.simps [of cfg fn s inp] tab_scan_file.simps [of cfg fn t inp])
    next
      case True
      show ?thesis
      proof (cases "process_line cfg fn (s\<lparr>fc_reader := rd, fc_line := line\<rparr>) rest")
        case (Inl a)
        then obtain b where "tab_process_line cfg fn (t\<lparr>tb_reader := rd, tb_line := line\<rparr>) rest = Inl b"
          using sim by (cases "tab_process_line cfg fn (t\<lparr>tb_reader := rd, tb_line := line\<rparr>) rest") auto
        then show ?thesis using Inl Inr x eq True
          by (simp add: scan_file.simps [of cfg fn s inp] tab_scan_file.simps [of cfg fn t inp] split: prod.split)
      next
        case (Inr sr)
        obtain s' r where sr: "sr = (s', r)" by (cases sr)
        obtain t' where tp: "tab_process_line cfg fn (t\<lparr>tb_reader := rd, tb_line := line\<rparr>) rest = Inr (t', r)"
            and sc2: "same_control s' t'"
          using sim Inr sr
          by (cases "tab_process_line cfg fn (t\<lparr>tb_reader := rd, tb_line := line\<rparr>) rest") auto
        have ih: "fst (scan_file cfg fn s' r) = fst (tab_scan_file cfg fn t' r)"
          using "1.IH" [OF \<open>_ = Inr x\<close> x [symmetric] refl refl _ Inr sr [symmetric] sc2] True by simp
        show ?thesis using Inr sr tp ih \<open>_ = Inr x\<close> x eq True
          by (simp add: scan_file.simps [of cfg fn s inp] tab_scan_file.simps [of cfg fn t inp])
      qed
    qed
  qed
qed

subsection \<open>Properties\<close>

text \<open>C35: on every path both scanners accept (a path ending in
  \<open>.java\<close>), \<open>TabularListOfInFile\<close> returns exactly what
  \<open>FindClassDefsInFile\<close> returns: the two loops read the same lines, take the
  same branches and throw at the same points; a package line takes the
  brace-only branch of \<open>FindClassDefsInFile\<close>, since it never matches the class
  pattern.\<close>

theorem tabular_same_result:
  "hasExtension filepath ''.java'' \<Longrightarrow>
     fst (TabularListOfInFile cfg filepath file tbl) = fst (FindClassDefsInFile cfg filepath file g)"
  by (auto simp: TabularListOfInFile_def FindClassDefsInFile_def hasExtension_def Let_def
      same_control_def intro!: scan_file_sim [symmetric] split: option.splits sum.splits)

text \<open>C36: \<open>package_p\<close> recognises exactly the lines \<open>package\<close>, one or
  more blanks, a non-empty name of letters, digits, \<open>_\<close> and \<open>.\<close>, and \<open>;\<close>;
  the name is returned.  An indented package line, or one with a blank or a
  comment residue after the \<open>;\<close>, is not recognised.\<close>

theorem package_match_iff:
  "package_match line = Some p \<longleftrightarrow>
     (\<exists>bs. line = ''package'' @ bs @ p @ '';'' \<and> bs \<noteq> [] \<and> (\<forall>c\<in>set bs. is_tb c) \<and>
           p \<noteq> [] \<and> (\<forall>c\<in>set p. is_pkg_char c))"
proof
  assume m: "package_match line = Some p"
  define r where "r = drop 7 line"
  define bs where "bs = takeWhile is_tb r"
  define s where "s = drop (length bs) r"
  have t: "take 7 line = ''package''" using m by (auto simp: package_match_def split: if_splits)
  have "package_match line = (if 0 < length bs \<and> s \<noteq> [] \<and> last s = CHR '';'' \<and> butlast s \<noteq> [] \<and>
      (\<forall>c\<in>set (butlast s). is_pkg_char c) then Some (butlast s) else None)"
    unfolding package_match_def Let_def
    by (simp only: t r_def [symmetric] bs_def [symmetric] s_def [symmetric] simp_thms if_True)
  then have c: "bs \<noteq> []" "s \<noteq> []" "last s = CHR '';''" "p \<noteq> []" "\<forall>c\<in>set p. is_pkg_char c" "p = butlast s"
    using m by (auto split: if_splits)
  have "butlast s @ [last s] = s" using c(2) by (rule append_butlast_last_id)
  then have "s = p @ [CHR '';'']" unfolding c(3) c(6) by (rule sym)
  moreover have "s = dropWhile is_tb r" by (simp add: s_def bs_def dropWhile_eq_drop)
  then have "r = bs @ s" by (simp add: bs_def)
  ultimately have "line = ''package'' @ bs @ p @ '';''"
    using t by (metis append_take_drop_id r_def)
  moreover have "\<forall>c\<in>set bs. is_tb c" by (auto simp: bs_def dest: set_takeWhileD)
  ultimately show "\<exists>bs. line = ''package'' @ bs @ p @ '';'' \<and> bs \<noteq> [] \<and> (\<forall>c\<in>set bs. is_tb c) \<and>
           p \<noteq> [] \<and> (\<forall>c\<in>set p. is_pkg_char c)" using c by blast
next
  assume "\<exists>bs. line = ''package'' @ bs @ p @ '';'' \<and> bs \<noteq> [] \<and> (\<forall>c\<in>set bs. is_tb c) \<and>
           p \<noteq> [] \<and> (\<forall>c\<in>set p. is_pkg_char c)"
  then obtain bs where l: "line = ''package'' @ bs @ p @ '';''" and b: "bs \<noteq> []" "\<forall>c\<in>set bs. is_tb c"
    and p: "p \<noteq> []" "\<forall>c\<in>set p. is_pkg_char c" by blast
  have hd: "\<not> is_tb (hd (p @ '';''))" using p pkg_not_tb by (cases p) auto
  have tw: "takeWhile is_tb (bs @ p @ '';'') = bs"
    using b(2) hd by (simp add: takeWhile_append2 takeWhile_eq_Nil_iff)
  have "drop (length bs) (bs @ p @ '';'') = p @ '';''" by simp
  then show "package_match line = Some p"
    using b p tw by (simp add: package_match_def l Let_def butlast_append)
qed

text \<open>Example: the table of a file with a package line and a nested public
  class: each item carries the package, the simple and the dotted full name,
  the modifiers and the file.\<close>

lemma table_of_nested_classes:
  "TabularListOfInFile \<lparr>allClasses = False, cset_java = False\<rparr> ''p/A.java''
     (Some (''package p.q;'' @ [NL] @ ''public class A {'' @ [NL] @ ''  public static class B {}'' @ [NL] @
            ''}'' @ [NL])) [] =
   (True, [\<lparr>ti_package = ''p.q'', ti_className = ''A'', ti_fullClassName = ''A'',
            ti_modifier = ''public '', ti_filename = ''p/A.java''\<rparr>,
           \<lparr>ti_package = ''p.q'', ti_className = ''B'', ti_fullClassName = ''A.B'',
            ti_modifier = ''public static '', ti_filename = ''p/A.java''\<rparr>])"
  by code_simp

text \<open>Example: the two scanners filter paths differently: \<open>TabularListOfInFile\<close>
  accepts a path containing \<open>.java\<close> anywhere (\<open>strstr\<close>), so it scans
  \<open>A.java.bak\<close>, which \<open>FindClassDefsInFile\<close> rejects.\<close>

lemma tabular_accepts_backup_files:
  "TabularListOfInFile \<lparr>allClasses = False, cset_java = False\<rparr> ''A.java.bak'' (Some (''public class A {}'' @ [NL])) [] =
     (True, [\<lparr>ti_package = [], ti_className = ''A'', ti_fullClassName = ''A'',
              ti_modifier = ''public '', ti_filename = ''A.java.bak''\<rparr>]) \<and>
   FindClassDefsInFile \<lparr>allClasses = False, cset_java = False\<rparr> ''A.java.bak'' (Some (''public class A {}'' @ [NL])) empty_graph =
     (False, empty_graph)"
  by code_simp

subsection \<open>Witnesses\<close>

lemma tabular_same_result_witness:
  "hasExtension ''A.java'' ''.java'' \<and>
   fst (TabularListOfInFile \<lparr>allClasses = False, cset_java = False\<rparr> ''A.java'' (Some (''public class A {}'' @ [NL])) []) =
   fst (FindClassDefsInFile \<lparr>allClasses = False, cset_java = False\<rparr> ''A.java'' (Some (''public class A {}'' @ [NL])) empty_graph)"
proof -
  have h: "hasExtension ''A.java'' ''.java''" by code_simp
  show ?thesis using tabular_same_result [OF h] h by blast
qed

lemma package_match_iff_witness:
  "package_match ''package a.b;'' = Some ''a.b''"
proof -
  have "''package a.b;'' = ''package'' @ '' '' @ ''a.b'' @ '';'' \<and> '' '' \<noteq> [] \<and> (\<forall>c\<in>set '' ''. is_tb c) \<and>
        ''a.b'' \<noteq> [] \<and> (\<forall>c\<in>set ''a.b''. is_pkg_char c)"
    by (simp add: is_tb_def is_pkg_char_def is_alpha_def)
  then show ?thesis using package_match_iff [of "''package a.b;''" "''a.b''"] by blast
qed

end
