(* ===== verification/ImportScan.thy ===== *)
theory ImportScan
  imports Tabular
begin

text \<open>
  The import scanner \<open>FindImportPackageInFile\<close> of javatree.cpp (option
  \<open>-I\<close>).  It reads a file through the scrubber and looks only at lines that
  are exactly \<open>package NAME;\<close> or \<open>import NAME;\<close>.  A package line enters
  the package and the file as registry nodes (modifiers \<open>package\<close> and
  \<open>file\<close>) and links the file as an interface of the package; an import of
  another package under \<open>com.wsi.\<close> enters the imported name as a child of the
  current package and of the file.  The file node is reached through the
  pointer \<open>file_ptr\<close>, which is \<open>NULL\<close> until the first package line; the
  scan is a value of \<open>(bool \<times> graph) option\<close> whose \<open>None\<close> is a
  dereference of that null pointer (a crash, which no \<open>catch\<close> handles).
  The theory shows that this never happens, and how imports are filtered.
\<close>

subsection \<open>The import pattern\<close>

text \<open>\<open>std::regex_match(line, matchs, import_p)\<close> with
  \<open>(package|import) ([A-Za-z0-9_.]+);\<close>: exactly one blank, and nothing
  before or after.  The result is whether group 1 is \<open>package\<close>, and
  group 2.\<close>

definition name_semicolon :: "string \<Rightarrow> string option" where
  "name_semicolon s =
     (if s \<noteq> [] \<and> last s = CHR '';'' \<and> butlast s \<noteq> [] \<and> (\<forall>c\<in>set (butlast s). is_pkg_char c)
      then Some (butlast s) else None)"

definition import_match :: "string \<Rightarrow> (bool \<times> string) option" where
  "import_match line =
     (if take 8 line = ''package '' then map_option (Pair True) (name_semicolon (drop 8 line))
      else if take 7 line = ''import '' then map_option (Pair False) (name_semicolon (drop 7 line))
      else None)"

subsection \<open>The scanner\<close>

record imp_state =
  ip_reader :: java_reader
  ip_packageName :: string
  ip_file_ptr :: "addr option"
  ip_graph :: graph

text \<open>\<open>child_ptr->add_interface(file_ptr)\<close> and
  \<open>file_ptr->add_child(child_ptr)\<close> on the object store.\<close>

definition add_interface_obj :: "addr \<Rightarrow> addr \<Rightarrow> graph \<Rightarrow> graph" where
  "add_interface_obj p q g = upd_obj p (\<lambda>c. c\<lparr>my_interfaces := add_linkage (my_interfaces c) q\<rparr>) g"

definition add_child_obj :: "addr \<Rightarrow> addr \<Rightarrow> graph \<Rightarrow> graph" where
  "add_child_obj p q g = upd_obj p (\<lambda>c. c\<lparr>my_children := add_linkage (my_children c) q\<rparr>) g"

text \<open>The body of the loop for one good line.\<close>

definition imp_line :: "string \<Rightarrow> imp_state \<Rightarrow> string \<Rightarrow> imp_state option" where
  "imp_line filename st line =
     (if 4096 \<le> length line \<or> length line \<le> 0 then Some st
      else
        (case import_match line of
           None \<Rightarrow> Some st
         | Some (True, packageName) \<Rightarrow>
             (case AddClass packageName ''package'' [] (ip_graph st) of
                (child_ptr, g1) \<Rightarrow>
                  (case AddClass filename ''file'' packageName g1 of
                     (file_ptr, g2) \<Rightarrow>
                       Some (st\<lparr>ip_packageName := packageName, ip_file_ptr := Some file_ptr,
                                ip_graph := add_interface_obj child_ptr file_ptr g2\<rparr>)))
         | Some (False, importName) \<Rightarrow>
             (if str_find importName (ip_packageName st) 0 = Some 0 then Some st
              else if str_find importName ''com.wsi.'' 0 \<noteq> Some 0 then Some st
              else
                (case AddClass importName (ip_packageName st) filename (ip_graph st) of
                   (child_ptr, g1) \<Rightarrow>
                     (let g2 = add_parent child_ptr (ip_packageName st) filename g1
                      in case ip_file_ptr st of
                           None \<Rightarrow> None
                         | Some fp \<Rightarrow> Some (st\<lparr>ip_graph := add_child_obj fp child_ptr g2\<rparr>))))))"

function imp_scan :: "string \<Rightarrow> imp_state \<Rightarrow> string \<Rightarrow> (bool \<times> graph) option" where
  "imp_scan filename st inp =
     (case getJavaline (ip_reader st) inp of
        Inl e \<Rightarrow> Some (False, ip_graph st)
      | Inr (rd, line, good, rest) \<Rightarrow>
          if \<not> good then Some (True, ip_graph st)
          else
            (case imp_line filename (st\<lparr>ip_reader := rd\<rparr>) line of
               None \<Rightarrow> None
             | Some st' \<Rightarrow> imp_scan filename st' rest))"
  by pat_completeness auto
termination
  by (relation "measure (\<lambda>(filename, st, inp). length inp)") (auto dest: getJavaline_rest)

declare imp_scan.simps [simp del]

text \<open>\<open>FindImportPackageInFile(filepath)\<close>; \<open>file\<close> is the content,
  \<open>None\<close> when the file cannot be opened.\<close>

definition FindImportPackageInFile ::
  "jt_config \<Rightarrow> string \<Rightarrow> string option \<Rightarrow> graph \<Rightarrow> (bool \<times> graph) option" where
  "FindImportPackageInFile cfg filepath file g =
     (if str_find filepath ''.java'' 0 = None then Some (False, g)
      else
        (case file of
           None \<Rightarrow> Some (False, g)
         | Some inp \<Rightarrow>
             (let filename0 = ([] :: string);
                  filename = (if cset_java cfg then FilePathToURL filepath
                              else (case last_index_of filename0 (CHR ''/'') of
                                      Some i \<Rightarrow> drop (Suc i) filename0
                                    | None \<Rightarrow> filepath))
              in imp_scan filename
                   \<lparr>ip_reader = new_reader, ip_packageName = [], ip_file_ptr = None, ip_graph = g\<rparr> inp)))"

subsection \<open>The null-pointer invariant\<close>

text \<open>\<open>file_ptr\<close> is set by the first package line, together with a
  non-empty \<open>packageName\<close>; while it is \<open>NULL\<close> the package name is empty,
  and every import then starts with it and is skipped.\<close>

definition imp_inv :: "imp_state \<Rightarrow> bool" where
  "imp_inv st \<longleftrightarrow> (ip_file_ptr st = None \<longrightarrow> ip_packageName st = [])"

subsection \<open>Lemmas\<close>

lemma str_find_empty: "str_find s [] 0 = Some 0"
  by (simp add: str_find.simps [of s "[]" 0])

lemma name_semicolon_nonempty: "name_semicolon s = Some n \<Longrightarrow> n \<noteq> []"
  by (auto simp: name_semicolon_def split: if_splits)

lemma imp_line_inv:
  assumes "imp_inv st"
  shows "\<exists>st'. imp_line fn st line = Some st' \<and> imp_inv st' \<and> ip_reader st' = ip_reader st"
proof (cases "4096 \<le> length line \<or> length line \<le> 0")
  case True
  then show ?thesis using assms by (simp add: imp_line_def)
next
  case False
  show ?thesis
  proof (cases "import_match line")
    case None
    then show ?thesis using False assms by (simp add: imp_line_def)
  next
    case (Some m)
    obtain isPkg name where m: "m = (isPkg, name)" by (cases m)
    show ?thesis
    proof (cases isPkg)
      case True
      then show ?thesis using False Some m assms
        by (auto simp: imp_line_def imp_inv_def split: prod.split)
    next
      case pkg: False
      show ?thesis
      proof (cases "ip_file_ptr st")
        case None
        then have "ip_packageName st = []" using assms by (simp add: imp_inv_def)
        then show ?thesis using False Some m pkg assms by (simp add: imp_line_def str_find_empty)
      next
        case (Some fp)
        then show ?thesis using False \<open>import_match line = Some m\<close> m pkg assms
          by (auto simp: imp_line_def imp_inv_def Let_def split: prod.split)
      qed
    qed
  qed
qed

lemma imp_scan_Some: "imp_inv st \<Longrightarrow> imp_scan fn st inp \<noteq> None"
proof (induction fn st inp rule: imp_scan.induct)
  case (1 fn st inp)
  show ?case
  proof (cases "getJavaline (ip_reader st) inp")
    case (Inl e)
    then show ?thesis by (simp add: imp_scan.simps [of fn st inp])
  next
    case (Inr x)
    obtain rd line good rest where x: "x = (rd, line, good, rest)" by (cases x)
    have "imp_inv (st\<lparr>ip_reader := rd\<rparr>)" using "1.prems" by (simp add: imp_inv_def)
    then obtain st' where st': "imp_line fn (st\<lparr>ip_reader := rd\<rparr>) line = Some st'" "imp_inv st'"
      using imp_line_inv by blast
    show ?thesis
    proof (cases good)
      case False
      then show ?thesis using Inr x by (simp add: imp_scan.simps [of fn st inp])
    next
      case True
      have "imp_scan fn st' rest \<noteq> None"
        using "1.IH" [OF Inr x [symmetric] refl refl _ st'(1) st'(2)] True by simp
      then show ?thesis using Inr x True st' by (simp add: imp_scan.simps [of fn st inp])
    qed
  qed
qed

subsection \<open>Properties\<close>

text \<open>C39: \<open>FindImportPackageInFile\<close> never dereferences the null
  \<open>file_ptr\<close>, whatever the file holds: an import line before the first package
  line is skipped by the \<open>importName.find(packageName) == 0\<close> test, since the
  package name is still empty.\<close>

theorem import_scan_no_null_dereference:
  "FindImportPackageInFile cfg filepath file g \<noteq> None"
proof -
  have "imp_scan fn \<lparr>ip_reader = new_reader, ip_packageName = [], ip_file_ptr = None, ip_graph = g\<rparr> inp \<noteq> None"
    for fn inp by (rule imp_scan_Some) (simp add: imp_inv_def)
  then show ?thesis by (auto simp: FindImportPackageInFile_def Let_def split: option.split)
qed

text \<open>C40: imports outside \<open>com.wsi.\<close> are dropped: a line importing
  a name that does not start with \<open>com.wsi.\<close> leaves the scanner state, and so
  the registry, unchanged.\<close>

theorem foreign_import_ignored:
  assumes "import_match line = Some (False, importName)"
    and "str_find importName ''com.wsi.'' 0 \<noteq> Some 0"
  shows "imp_line fn st line = Some st"
  using assms by (simp add: imp_line_def)

text \<open>Example: a file of package \<open>com.wsi.a\<close> importing
  \<open>java.util.Map\<close> and \<open>com.wsi.b.C\<close>: the package and the file become
  nodes, the file is an interface of the package, the \<open>java.util\<close> import is
  dropped, and \<open>com.wsi.b.C\<close> becomes a child of both the package and the
  file; the package node's file is overwritten by \<open>add_parent\<close>.\<close>

lemma import_graph_example:
  "FindImportPackageInFile \<lparr>allClasses = False, cset_java = False\<rparr> ''a/B.java''
     (Some (''package com.wsi.a;'' @ [NL] @ ''import java.util.Map;'' @ [NL] @ ''import com.wsi.b.C;'' @ [NL]))
     empty_graph =
   Some (True,
     \<lparr>clist = [(''a/B.java'', 1), (''com.wsi.a'', 0), (''com.wsi.b.C'', 2)],
      objs = [\<lparr>my_name = ''com.wsi.a'', my_modifier = ''package'', my_file = ''a/B.java'',
               my_children = [2], my_parents = [], my_interfaces = [1]\<rparr>,
              \<lparr>my_name = ''a/B.java'', my_modifier = ''file'', my_file = ''com.wsi.a'',
               my_children = [2], my_parents = [], my_interfaces = []\<rparr>,
              \<lparr>my_name = ''com.wsi.b.C'', my_modifier = ''com.wsi.a'', my_file = ''a/B.java'',
               my_children = [], my_parents = [0], my_interfaces = []\<rparr>]\<rparr>)"
  by code_simp

subsection \<open>Witnesses\<close>

lemma foreign_import_ignored_witness:
  "imp_line ''a/B.java'' \<lparr>ip_reader = new_reader, ip_packageName = ''com.wsi.a'', ip_file_ptr = Some 1,
       ip_graph = empty_graph\<rparr> ''import java.util.Map;'' =
   Some \<lparr>ip_reader = new_reader, ip_packageName = ''com.wsi.a'', ip_file_ptr = Some 1,
       ip_graph = empty_graph\<rparr>"
proof -
  have m: "import_match ''import java.util.Map;'' = Some (False, ''java.util.Map'')" by code_simp
  have f: "str_find ''java.util.Map'' ''com.wsi.'' 0 \<noteq> Some 0" by code_simp
  show ?thesis by (rule foreign_import_ignored [OF m f])
qed

end
