(* ===== verification/Driver.thy ===== *)
theory Driver
  imports ImportScan Renderer "HOL-Library.Word"
begin

text \<open>
  The driver of javatree.cpp: the run-time switches and their parsing in
  \<open>main\<close>, \<open>MakeTitle\<close>, the ignore test \<open>FileMatches\<close>, the directory
  walk \<open>FindClassDefinitions\<close> that hands every file to one of the three
  scanners, and the text output of \<open>main\<close>.  The file system is a tree of
  \<open>fs_entry\<close> values in the order \<open>Directory_files\<close> (directory.h, not
  part of src/) lists them, with the full name of each entry and the content
  of each file; \<open>std::regex_match\<close> with a user pattern is the parameter
  \<open>regex_match\<close>.  \<open>size_t\<close> arithmetic in \<open>FileMatches\<close> is on
  \<open>64 word\<close>, the \<open>long\<close> to \<open>int\<close> cast of \<open>-N\<close> on \<open>32 word\<close>.
\<close>

subsection \<open>Run-time switches\<close>

text \<open>The globals \<open>show_names\<close> ... \<open>nodesPerFile\<close>, \<open>outPath\<close>, the
  ignore patterns of \<open>main\<close> (as pattern texts) and \<open>graphName\<close>.\<close>

record options =
  o_show_names :: bool
  o_show_tree :: bool
  o_cset :: charset
  o_allClasses :: bool
  o_importPackage :: bool
  o_tabularList :: bool
  o_vizSplit :: bool
  o_nodesPerFile :: int
  o_outPath :: string
  o_ignore :: "string list"
  o_graphName :: string

definition default_options :: options where
  "default_options =
     \<lparr>o_show_names = False, o_show_tree = True, o_cset = GRAPHICS_CHAR, o_allClasses = False,
      o_importPackage = False, o_tabularList = False, o_vizSplit = False, o_nodesPerFile = 0,
      o_outPath = [], o_ignore = [], o_graphName = []\<rparr>"

definition cfg_of :: "options \<Rightarrow> jt_config" where
  "cfg_of opts = \<lparr>allClasses = o_allClasses opts, cset_java = (o_cset opts = JAVA_CHAR)\<rparr>"

subsection \<open>\<open>strtol\<close> and the \<open>int\<close> cast\<close>

definition is_space :: "char \<Rightarrow> bool" where
  "is_space c \<longleftrightarrow> c \<in> {CHR '' '', TAB, NL, CHR 0x0B, CHR 0x0C, CR}"

fun digits_val :: "int \<Rightarrow> string \<Rightarrow> int" where
  "digits_val acc [] = acc"
| "digits_val acc (c # cs) =
     (if CHR ''0'' \<le> c \<and> c \<le> CHR ''9'' then digits_val (acc * 10 + (int (of_char c) - 48)) cs else acc)"

text \<open>\<open>strtol(s, 0, 10)\<close> with a 64-bit \<open>long\<close>: leading white space, an
  optional sign, the decimal digits; the value is clamped to the range of
  \<open>long\<close> (\<open>ERANGE\<close>), and is 0 when there is no digit.\<close>

definition strtol_dec :: "string \<Rightarrow> int" where
  "strtol_dec s =
     (let t = dropWhile is_space s;
          (neg, u) = (case t of
                        c # r \<Rightarrow> (if c = CHR ''-'' then (True, r) else if c = CHR ''+'' then (False, r) else (False, t))
                      | [] \<Rightarrow> (False, t));
          v = digits_val 0 u;
          w = (if neg then - v else v)
      in max (- (2 ^ 63)) (min (2 ^ 63 - 1) w))"

text \<open>The conversion \<open>(int)\<close> of a \<open>long\<close>: the low 32 bits, read as a
  signed number (GCC's documented behaviour).\<close>

definition int_of_long :: "int \<Rightarrow> int" where
  "int_of_long l = sint (word_of_int l :: 32 word)"

subsection \<open>Parsing the switches\<close>

text \<open>One \<open>-x\<close>/\<open>+x\<close> argument of \<open>main\<close>: the switch on its second
  character.  \<open>-N\<close>, \<open>-O\<close> and \<open>-V\<close> read their value at \<open>argv[argn] + 3\<close>;
  on a two-character argument that pointer lies past the terminating zero, a
  read out of bounds, which is the value \<open>None\<close>.  \<open>-V\<close> turns every
  \<open>*\<close> of its pattern into \<open>.*\<close>.\<close>

definition parse_switch :: "options \<Rightarrow> string \<Rightarrow> options option" where
  "parse_switch opts a =
     (let polarity = (hd a = CHR ''+'');
          c = (if 2 \<le> length a then a ! 1 else CHR 0x00);
          arg = drop 3 a
      in if c \<in> {CHR ''N'', CHR ''O'', CHR ''V''} \<and> length a < 3 then None
         else Some
           (if c = CHR ''n'' then opts\<lparr>o_show_names := polarity\<rparr>
            else if c = CHR ''t'' then opts\<lparr>o_show_tree := polarity\<rparr>
            else if c = CHR ''g'' then opts\<lparr>o_cset := GRAPHICS_CHAR\<rparr>
            else if c = CHR ''x'' then opts\<lparr>o_cset := TEXT_CHAR\<rparr>
            else if c = CHR ''s'' then opts\<lparr>o_cset := SPACE_CHAR\<rparr>
            else if c = CHR ''h'' then opts\<lparr>o_cset := HTML_CHAR\<rparr>
            else if c = CHR ''j'' then opts\<lparr>o_cset := JAVA_CHAR\<rparr>
            else if c = CHR ''z'' then opts\<lparr>o_cset := VIZ_CHAR\<rparr>
            else if c = CHR ''A'' then opts\<lparr>o_allClasses := True\<rparr>
            else if c = CHR ''I'' then opts\<lparr>o_importPackage := True\<rparr>
            else if c = CHR ''T'' then opts\<lparr>o_tabularList := True\<rparr>
            else if c = CHR ''Z'' then opts\<lparr>o_vizSplit := True\<rparr>
            else if c = CHR ''N'' then opts\<lparr>o_nodesPerFile := int_of_long (strtol_dec arg)\<rparr>
            else if c = CHR ''O'' then opts\<lparr>o_outPath := arg\<rparr>
            else if c = CHR ''V'' then opts\<lparr>o_ignore := o_ignore opts @ [replace_char CHR ''*'' ''.*'' arg]\<rparr>
            else opts))"

subsection \<open>The title\<close>

definition is_title_special :: "char \<Rightarrow> bool" where
  "is_title_special c \<longleftrightarrow> c = CHR ''*'' \<or> c = CHR ''?'' \<or> c = CHR ''-''"

text \<open>\<open>std::regex_replace(title, "[*?-]+", "_")\<close>: every maximal run of
  \<open>*\<close>, \<open>?\<close> and \<open>-\<close> becomes one \<open>_\<close>.\<close>

function special_runs :: "string \<Rightarrow> string" where
  "special_runs [] = []"
| "special_runs (c # cs) =
     (if is_title_special c then CHR ''_'' # special_runs (dropWhile is_title_special cs)
      else c # special_runs cs)"
  by pat_completeness auto
termination
  by (relation "measure length") (auto simp: le_imp_less_Suc length_dropWhile_le)

text \<open>\<open>MakeTitle(codePath)\<close>: cut at the last dot, then at the last slash,
  drop up to the first colon, replace the special runs and the slashes.\<close>

definition MakeTitle :: "string \<Rightarrow> string" where
  "MakeTitle codePath =
     (let t1 = (case last_index_of codePath (CHR ''.'') of Some e \<Rightarrow> take e codePath | None \<Rightarrow> codePath);
          t2 = (case last_index_of t1 (CHR ''/'') of Some d \<Rightarrow> take d t1 | None \<Rightarrow> t1);
          t3 = (case find_first_of t2 '':'' of Some c \<Rightarrow> drop (Suc c) t2 | None \<Rightarrow> t2)
      in map (\<lambda>c. if c = CHR ''/'' then CHR ''_'' else c) (special_runs t3))"

subsection \<open>Ignoring files\<close>

text \<open>\<open>FileMatches(inPath, patternList)\<close>: \<open>nameStart\<close> is
  \<open>inPath.rfind('/') + 1\<close> in \<open>size_t\<close>; without a slash \<open>rfind\<close> returns
  \<open>npos\<close> and the sum wraps to 0.\<close>

definition FileMatches :: "(string \<Rightarrow> string \<Rightarrow> bool) \<Rightarrow> string \<Rightarrow> string list \<Rightarrow> bool" where
  "FileMatches regex_match inPath patternList =
     (let nameStart = (case last_index_of inPath (CHR ''/'') of
                         None \<Rightarrow> - 1
                       | Some i \<Rightarrow> (word_of_nat i :: 64 word)) + 1
      in if patternList = [] \<or> nameStart = 0 \<or> unat nameStart = length inPath then False
         else list_ex (\<lambda>p. regex_match p (drop (unat nameStart) inPath)) patternList)"

subsection \<open>The directory walk\<close>

datatype fs_entry = FsFile string "string option" | FsDir string "fs_entry list"

text \<open>The globals the scanners fill: the registry \<open>clist\<close> and
  \<open>tableList\<close>.\<close>

record run_state =
  rs_graph :: graph
  rs_table :: "table_item list"

text \<open>The scanner \<open>FindClassDefinitions\<close> calls for a file, by the mode;
  \<open>None\<close> is the crash of the import scanner.\<close>

definition scan_one :: "options \<Rightarrow> string \<Rightarrow> string option \<Rightarrow> run_state \<Rightarrow> (bool \<times> run_state) option" where
  "scan_one opts path file st =
     (if o_importPackage opts then
        map_option (\<lambda>(ok, g). (ok, st\<lparr>rs_graph := g\<rparr>)) (FindImportPackageInFile (cfg_of opts) path file (rs_graph st))
      else if o_tabularList opts then
        (case TabularListOfInFile (cfg_of opts) path file (rs_table st) of
           (ok, t) \<Rightarrow> Some (ok, st\<lparr>rs_table := t\<rparr>))
      else
        (case FindClassDefsInFile (cfg_of opts) path file (rs_graph st) of
           (ok, g) \<Rightarrow> Some (ok, st\<lparr>rs_graph := g\<rparr>)))"

text \<open>\<open>FindClassDefinitions(dirname, ignorePatterns)\<close> over the entries of
  a directory: subdirectories recursively, files not ignored by
  \<open>FileMatches\<close>; the count is the number of files whose scanner returned
  true.\<close>

fun find_defs ::
  "options \<Rightarrow> (string \<Rightarrow> string \<Rightarrow> bool) \<Rightarrow> fs_entry list \<Rightarrow> run_state \<Rightarrow> (nat \<times> run_state) option" where
  "find_defs opts rx [] st = Some (0, st)"
| "find_defs opts rx (FsDir name es # rest) st =
     (case find_defs opts rx es st of
        None \<Rightarrow> None
      | Some (c1, st1) \<Rightarrow>
          (case find_defs opts rx rest st1 of
             None \<Rightarrow> None
           | Some (c2, st2) \<Rightarrow> Some (c1 + c2, st2)))"
| "find_defs opts rx (FsFile name file # rest) st =
     (if 0 < length name \<and> \<not> FileMatches rx name (o_ignore opts) then
        (case scan_one opts name file st of
           None \<Rightarrow> None
         | Some (ok, st1) \<Rightarrow>
             (case find_defs opts rx rest st1 of
                None \<Rightarrow> None
              | Some (c2, st2) \<Rightarrow> Some ((if ok then 1 else 0) + c2, st2)))
      else find_defs opts rx rest st)"

subsection \<open>The argument loop of \<open>main\<close>\<close>

text \<open>The \<open>for\<close> loop over \<open>argv\<close>: a switch updates the options, any other
  argument sets the title and walks the directory \<open>fs a\<close> with the options
  parsed so far.\<close>

fun run_args ::
  "options \<Rightarrow> (string \<Rightarrow> string \<Rightarrow> bool) \<Rightarrow> (string \<Rightarrow> fs_entry list) \<Rightarrow> string list \<Rightarrow> run_state \<Rightarrow>
     (options \<times> run_state) option" where
  "run_args opts rx fs [] st = Some (opts, st)"
| "run_args opts rx fs (a # args) st =
     (if a \<noteq> [] \<and> (hd a = CHR ''-'' \<or> hd a = CHR ''+'') then
        (case parse_switch opts a of
           None \<Rightarrow> None
         | Some opts' \<Rightarrow> run_args opts' rx fs args st)
      else
        (let opts' = opts\<lparr>o_graphName := MakeTitle a\<rparr>
         in case find_defs opts' rx (fs a) st of
              None \<Rightarrow> None
            | Some (cnt, st') \<Rightarrow> run_args opts' rx fs args st'))"

subsection \<open>The text output\<close>

definition doc_begin :: "string list" where
  "doc_begin = ['''', '''', '''', ''<html>'', '''']"

definition doc_end :: "string list" where
  "doc_end = ['''', '''', '''', ''</table></html>'', '''']"

text \<open>The last branch of \<open>main\<close>, taken when \<open>cset\<close> is neither
  \<open>VIZ_CHAR\<close> nor \<open>JAVA_CHAR\<close> and \<open>-T\<close> is off: the optional name table
  and the optional tree between \<open>doc_begin\<close> and \<open>doc_end\<close>
  (\<open>sNodeNum\<close> starts at 1).\<close>

definition text_output :: "nat \<Rightarrow> options \<Rightarrow> run_state \<Rightarrow> string option" where
  "text_output fuel opts st =
     (let cs = o_cset opts; g = rs_graph st;
          names = (if o_show_names opts then display_names cs g else [])
      in if o_show_tree opts then
           map_option (\<lambda>(tree, k). tbl doc_begin cs @ names @ tree @ tbl doc_end cs)
             (display_dependences_text fuel cs g 1)
         else Some (tbl doc_begin cs @ names @ tbl doc_end cs))"

subsection \<open>Counting files\<close>

text \<open>The number of files in a directory tree, a bound for the count
  \<open>FindClassDefinitions\<close> returns.\<close>

fun count_files :: "fs_entry list \<Rightarrow> nat" where
  "count_files [] = 0"
| "count_files (FsDir n es # rest) = count_files es + count_files rest"
| "count_files (FsFile n f # rest) = Suc (count_files rest)"

subsection \<open>Lemmas\<close>

text \<open>The walk without \<open>-I\<close> only applies registry operations, and counts
  at most the files it visits.\<close>

lemma FindClassDefsInFile_reach:
  "reachable g \<Longrightarrow> reachable (snd (FindClassDefsInFile cfg filepath file g))"
  by (auto simp: FindClassDefsInFile_def Let_def intro!: scan_file_reachable
      split: option.splits sum.splits)

lemma scan_one_reachable:
  assumes "\<not> o_importPackage opts" "reachable (rs_graph st)" "scan_one opts name f st = Some (ok, st1)"
  shows "reachable (rs_graph st1)"
proof (cases "o_tabularList opts")
  case True
  then show ?thesis using assms
    by (simp add: scan_one_def split: prod.splits) (metis run_state.select_convs(1) run_state.surjective run_state.update_convs(2))
next
  case False
  obtain ok' g' where fc: "FindClassDefsInFile (cfg_of opts) name f (rs_graph st) = (ok', g')" by fastforce
  then have "st1 = st\<lparr>rs_graph := g'\<rparr>" using assms(1,3) False by (simp add: scan_one_def)
  moreover have "reachable g'" using FindClassDefsInFile_reach [OF assms(2), of "cfg_of opts" name f] fc by simp
  ultimately show ?thesis by simp
qed

lemma find_defs_reachable:
  "\<not> o_importPackage opts \<Longrightarrow> reachable (rs_graph st) \<Longrightarrow> find_defs opts rx es st = Some (n, st') \<Longrightarrow>
     reachable (rs_graph st')"
proof (induction opts rx es st arbitrary: n st' rule: find_defs.induct)
  case (1 opts rx st)
  then show ?case by simp
next
  case (2 opts rx name es rest st)
  from "2.prems"(3) obtain c1 st1 c2 where a: "find_defs opts rx es st = Some (c1, st1)"
    and b: "find_defs opts rx rest st1 = Some (c2, st')"
    by (auto split: option.splits)
  have "reachable (rs_graph st1)" using "2.IH"(1) [OF "2.prems"(1,2) a] .
  then show ?case using "2.IH"(2) [OF a refl "2.prems"(1) _ b] by simp
next
  case (3 opts rx name f rest st)
  show ?case
  proof (cases "0 < length name \<and> \<not> FileMatches rx name (o_ignore opts)")
    case True
    with "3.prems"(3) obtain ok st1 c2 where a: "scan_one opts name f st = Some (ok, st1)"
      and b: "find_defs opts rx rest st1 = Some (c2, st')"
      by (auto split: option.splits)
    have "reachable (rs_graph st1)" using scan_one_reachable [OF "3.prems"(1,2) a] .
    then show ?thesis using "3.IH"(1) [OF True a refl "3.prems"(1) _ b] by simp
  next
    case False
    have "find_defs opts rx (FsFile name f # rest) st = find_defs opts rx rest st"
      by (simp only: find_defs.simps(3) False if_False)
    then show ?thesis using "3.IH"(2) [OF False "3.prems"(1,2)] "3.prems"(3) by simp
  qed
qed

lemma find_defs_count: "find_defs opts rx es st = Some (n, st') \<Longrightarrow> n \<le> count_files es"
proof (induction opts rx es st arbitrary: n st' rule: find_defs.induct)
  case (2 opts rx name es rest st)
  then show ?case by (fastforce split: option.splits)
next
  case (3 opts rx name f rest st)
  then show ?case by (fastforce split: if_splits option.splits)
qed simp

subsection \<open>Properties\<close>

text \<open>C37: \<open>FileMatches\<close> never ignores a path without a slash: there
  \<open>inPath.rfind('/')\<close> is \<open>npos\<close>, \<open>npos + 1\<close> wraps around to 0 in
  \<open>size_t\<close>, and the \<open>nameStart == 0\<close> test returns false before any pattern is
  tried.\<close>

theorem FileMatches_no_slash:
  "last_index_of inPath (CHR ''/'') = None \<Longrightarrow> \<not> FileMatches regex_match inPath patternList"
  by (simp add: FileMatches_def)

text \<open>Examples: \<open>-N=4294967297\<close> sets \<open>nodesPerFile\<close> to 1 (the
  \<open>long\<close> value cut to 32 bits), and a switch placed after a path does not apply
  to that path: with \<open>src -A\<close> the non-public class of src/A.java is skipped,
  with \<open>-A src\<close> it is recorded.\<close>

lemma nodes_per_file_wraps:
  "parse_switch default_options ''-N=4294967297'' = Some (default_options\<lparr>o_nodesPerFile := 1\<rparr>)"
  by code_simp

lemma switch_after_path_ignored:
  "run_args default_options (\<lambda>p s. False) (\<lambda>d. [FsFile ''src/A.java'' (Some (''class A {}'' @ [NL]))])
     [''src'', ''-A''] \<lparr>rs_graph = empty_graph, rs_table = []\<rparr> =
   Some (default_options\<lparr>o_allClasses := True, o_graphName := ''src''\<rparr>, \<lparr>rs_graph = empty_graph, rs_table = []\<rparr>) \<and>
   run_args default_options (\<lambda>p s. False) (\<lambda>d. [FsFile ''src/A.java'' (Some (''class A {}'' @ [NL]))])
     [''-A'', ''src''] \<lparr>rs_graph = empty_graph, rs_table = []\<rparr> =
   Some (default_options\<lparr>o_allClasses := True, o_graphName := ''src''\<rparr>,
         \<lparr>rs_graph = \<lparr>clist = [(''A'', 0)], objs = [new_class_rel ''A'' [] ''src/A.java'']\<rparr>, rs_table = []\<rparr>)"
  by code_simp

subsection \<open>Witnesses\<close>

lemma FileMatches_no_slash_witness:
  "last_index_of ''A.java'' (CHR ''/'') = None \<and> \<not> FileMatches (\<lambda>p s. True) ''A.java'' [''.*'']"
proof -
  have n: "last_index_of ''A.java'' (CHR ''/'') = None" by code_simp
  show ?thesis using FileMatches_no_slash [OF n] n by blast
qed

end
