(* ===== verification/Viz.thy ===== *)
theory Viz
  imports Driver
begin

text \<open>
  The GraphViz output of javatree.cpp (\<open>cset == VIZ_CHAR\<close>, switch
  \<open>-z\<close>): the \<open>VIZ_CHAR\<close> branches of \<open>display_children\<close>, the
  output-file switching of \<open>display_dependences\<close> with \<open>NextFile\<close>,
  \<open>outVizHeader\<close> and \<open>outVizTrailer\<close>.  The streams are explicit
  state: \<open>viz_io\<close> records what was written to the terminal, the files
  opened through \<open>outStream\<close> in order with their contents, whether
  \<open>outStream\<close> has a file open, its failbit, whether \<open>cout\<close> is
  redirected into it (\<open>SwapStream\<close>) and the global \<open>needHeader\<close>.
  Opening a file succeeds when the parameter \<open>opens\<close> says so.  The
  counter \<open>nodeCnt\<close> of \<open>display_dependences\<close> is a \<open>size_t\<close>, a
  \<open>64 word\<close>.
\<close>

subsection \<open>The nodes and edges of one class\<close>

text \<open>\<open>ReplaceAll(name, sDot, sNL)\<close>: every dot becomes the two characters
  \<open>\n\<close>, a line break inside a GraphViz label.\<close>

definition viz_name :: "string \<Rightarrow> string" where
  "viz_name s = replace_char CHR ''.'' [CHR 0x5C, CHR ''n''] s"

text \<open>\<open>modifier().find(w) != -1\<close>.\<close>

definition has_text :: "string \<Rightarrow> string \<Rightarrow> bool" where
  "has_text s w \<longleftrightarrow> str_find s w 0 \<noteq> None"

text \<open>The \<open>VIZ_CHAR\<close> branch for a class without children: nothing under
  \<open>-I\<close> (only a message on \<open>cerr\<close>), otherwise the node with its colour:
  chartreuse when abstract, red when not public.\<close>

definition viz_leaf :: "bool \<Rightarrow> graph \<Rightarrow> addr \<Rightarrow> string \<times> nat" where
  "viz_leaf imp g p =
     (if imp then ([], 0)
      else
        (let c = objs g ! p; name = viz_name (my_name c);
             m1 = (if has_text (my_modifier c) ''abstract'' then '' [fillcolor=chartreuse] '' else []);
             m2 = (if \<not> has_text (my_modifier c) ''public'' then '' [color=red] '' else m1)
         in ((if m2 \<noteq> [] then [DQ] @ name @ [DQ] @ '' '' @ m2 @ [NL] else []) @ [DQ] @ name @ [DQ] @ [NL], 1)))"

text \<open>The \<open>VIZ_CHAR\<close> lines for one child \<open>c\<close> of \<open>p\<close>, from the current
  \<open>parendModStr\<close> and \<open>childModStr\<close>; the second result is the new
  \<open>childModStr\<close>, which the loop keeps for the next child.  (The test
  \<open>parent_ptr == NULL\<close> for an abstract child is always false there.)\<close>

definition viz_edge :: "graph \<Rightarrow> addr \<Rightarrow> bool \<Rightarrow> string \<Rightarrow> string \<Rightarrow> addr \<Rightarrow> string \<times> string" where
  "viz_edge g p ppnull pmod cmod c =
     (let cn = viz_name (my_name (objs g ! c)); pn = viz_name (my_name (objs g ! p));
          pm = (if has_text (my_modifier (objs g ! p)) ''abstract'' then
                  (if ppnull then '' [color=green] '' else '' [fillcolor=chartreuse] '') else pmod);
          cm1 = (if has_text (my_modifier (objs g ! c)) ''abstract'' then '' [fillcolor=chartreuse] '' else cmod);
          cm = (if \<not> has_text (my_modifier (objs g ! c)) ''public'' then '' [color=red] '' else cm1)
      in ((if pm \<noteq> [] then [DQ] @ pn @ [DQ] @ '' '' @ pm @ [NL] else []) @
          (if cm \<noteq> [] then [DQ] @ cn @ [DQ] @ '' '' @ cm @ [NL] else []) @
          [DQ] @ pn @ [DQ] @ '' -> '' @ [DQ] @ cn @ [DQ] @ [NL], cm))"

text \<open>\<open>display_children(parentNum, width, parent_ptr, pparent_ptr)\<close> with
  \<open>cset == VIZ_CHAR\<close>; \<open>ppnull\<close> is \<open>pparent_ptr == NULL\<close>.  The
  interfaces come first, then either the loop over the children (each child's
  lines, then its subtree with \<open>sNodeNum\<close> incremented) or the single node.
  The result is the text written, the returned \<open>nodeCnt\<close> and the new
  \<open>sNodeNum\<close>.  The fuel bounds the recursion depth.\<close>

fun display_children_viz ::
  "nat \<Rightarrow> bool \<Rightarrow> graph \<Rightarrow> addr \<Rightarrow> bool \<Rightarrow> nat \<Rightarrow> (string \<times> nat \<times> nat) option"
and viz_loop ::
  "nat \<Rightarrow> bool \<Rightarrow> graph \<Rightarrow> addr \<Rightarrow> bool \<Rightarrow> addr list \<Rightarrow> string \<Rightarrow> string \<Rightarrow> nat \<Rightarrow>
     (string \<times> nat \<times> nat) option" where
  "display_children_viz 0 imp g p ppnull k = None"
| "display_children_viz (Suc n) imp g p ppnull k =
     (let (itext, icnt) = display_interfaces VIZ_CHAR g p
      in if my_children (objs g ! p) \<noteq> [] then
           map_option (\<lambda>(out, m, k'). (itext @ out, icnt + m, k'))
             (viz_loop n imp g p ppnull (my_children (objs g ! p))
                (if ppnull then '' [fillcolor=cyan1]'' else '' [fillcolor=cyan4]'') [] k)
         else (case viz_leaf imp g p of (out, m) \<Rightarrow> Some (itext @ out, icnt + m, k)))"
| "viz_loop n imp g p ppnull [] pmod cmod k = Some ([], 0, k)"
| "viz_loop n imp g p ppnull (c # rest) pmod cmod k =
     (case viz_edge g p ppnull pmod cmod c of
        (line, cmod') \<Rightarrow>
          (case display_children_viz n imp g c False (Suc k) of
             None \<Rightarrow> None
           | Some (sub, m, k1) \<Rightarrow>
               (case viz_loop n imp g p ppnull rest [] cmod' k1 of
                  None \<Rightarrow> None
                | Some (out, m2, k2) \<Rightarrow> Some (line @ sub @ out, 1 + m + m2, k2))))"

subsection \<open>The output streams\<close>

record viz_io =
  vi_stdout :: string
  vi_files :: "(string \<times> string) list"
  vi_open :: bool
  vi_fail :: bool
  vi_swapped :: bool
  vi_needHeader :: bool

text \<open>At the start of \<open>main\<close>: nothing written, \<open>outStream\<close> default
  constructed (no file, no error flag), \<open>needHeader = true\<close>.\<close>

definition viz_io0 :: viz_io where
  "viz_io0 = \<lparr>vi_stdout = [], vi_files = [], vi_open = False, vi_fail = False, vi_swapped = False,
              vi_needHeader = True\<rparr>"

fun app_last :: "string \<Rightarrow> (string \<times> string) list \<Rightarrow> (string \<times> string) list" where
  "app_last s [] = []"
| "app_last s [(f, c)] = [(f, c @ s)]"
| "app_last s (x # y # zs) = x # app_last s (y # zs)"

text \<open>\<open>cout << s\<close>: into the file last opened when \<open>cout\<close> is swapped into
  \<open>outStream\<close>, to the terminal otherwise.\<close>

definition viz_write :: "viz_io \<Rightarrow> string \<Rightarrow> viz_io" where
  "viz_write io s =
     (if vi_swapped io then io\<lparr>vi_files := app_last s (vi_files io)\<rparr> else io\<lparr>vi_stdout := vi_stdout io @ s\<rparr>)"

text \<open>\<open>std::ofstream::close()\<close> sets the failbit when no file is open;
  \<open>open(name)\<close> sets it when the file cannot be opened (or one is already
  open) and clears the flags on success.\<close>

definition ofs_close :: "viz_io \<Rightarrow> viz_io" where
  "ofs_close io = (if vi_open io then io\<lparr>vi_open := False\<rparr> else io\<lparr>vi_fail := True\<rparr>)"

definition ofs_open :: "(string \<Rightarrow> bool) \<Rightarrow> string \<Rightarrow> viz_io \<Rightarrow> viz_io" where
  "ofs_open opens f io =
     (if \<not> vi_open io \<and> opens f then io\<lparr>vi_files := vi_files io @ [(f, [])], vi_open := True, vi_fail := False\<rparr>
      else io\<lparr>vi_fail := True\<rparr>)"

text \<open>The block \<open>if (outStream.good()) { outVizTrailer();
  swapStream.restore(); outStream.close(); }\<close>.\<close>

definition viz_finish :: "viz_io \<Rightarrow> viz_io" where
  "viz_finish io = (if \<not> vi_fail io then ofs_close ((viz_write io (''}'' @ [NL]))\<lparr>vi_swapped := False\<rparr>) else io)"

text \<open>\<open>outVizHeader()\<close>; \<open>title\<close> and \<open>graphName\<close> are both set by
  \<open>MakeTitle\<close> to the same text.\<close>

definition viz_header :: "options \<Rightarrow> string" where
  "viz_header opts =
     ''digraph '' @ o_graphName opts @ '' {'' @ [NL] @ ''bgcolor=transparent'' @ [NL] @ ''overlap=false;'' @ [NL] @
     ''label='' @ [DQ] @ o_graphName opts @ '' Class Hierarchy - Dennis Lang & GraphViz'' @ [DQ] @ '';'' @ [NL] @
     ''fontsize=12;'' @ [NL] @ ''node [shape=box,style=filled,fillcolor=white];'' @ [NL]"

text \<open>The name of the file of a root: \<open>outPath + name + ".gv"\<close> with every
  character of \<open>[<,>?]\<close> replaced by \<open>_\<close>.\<close>

definition viz_file_name :: "options \<Rightarrow> string \<Rightarrow> string" where
  "viz_file_name opts name =
     map (\<lambda>c. if c \<in> set ''<,>?'' then CHR ''_'' else c) (o_outPath opts @ name @ ''.gv'')"

subsection \<open>Splitting the output\<close>

text \<open>\<open>NextFile(out, nodeCnt, nextNodeCnt)\<close>: whether to start a new
  file, and the new \<open>nodeCnt\<close>.  \<open>nodesPerFile\<close> is an \<open>int\<close>, converted
  to \<open>size_t\<close> in the comparisons.\<close>

definition NextFile :: "options \<Rightarrow> viz_io \<Rightarrow> 64 word \<Rightarrow> 64 word \<Rightarrow> bool \<times> 64 word" where
  "NextFile opts io nodeCnt nextNodeCnt =
     (if o_outPath opts = [] then (False, nodeCnt)
      else
        (let N = (word_of_int (o_nodesPerFile opts) :: 64 word);
             next = (vi_fail io \<or> nodeCnt = - 1 \<or> o_vizSplit opts \<or>
                     (o_nodesPerFile opts \<noteq> 0 \<and> N < nodeCnt * 2 \<and> N < nodeCnt + nextNodeCnt div 2))
         in (next, if next then 0 else nodeCnt)))"

text \<open>The part of the root loop of \<open>display_dependences\<close> before
  \<open>display_children\<close>: \<open>NextFile\<close> with the count of the root's subtree,
  then possibly closing the current file and opening the root's file, then
  the header if needed.\<close>

definition viz_root_step :: "options \<Rightarrow> (string \<Rightarrow> bool) \<Rightarrow> graph \<Rightarrow> addr \<Rightarrow> nat \<Rightarrow> viz_io \<Rightarrow> 64 word \<Rightarrow> viz_io \<times> 64 word" where
  "viz_root_step opts opens g p cc io nodeCnt =
     (case NextFile opts io nodeCnt (word_of_nat cc) of
        (next, nodeCnt1) \<Rightarrow>
          (let io1 = (if next then
                        (let io_b = ofs_open opens (viz_file_name opts (my_name (objs g ! p)))
                                      ((viz_finish io)\<lparr>vi_needHeader := True\<rparr>)
                         in if \<not> vi_fail io_b then io_b\<lparr>vi_swapped := True\<rparr> else io_b)
                      else io);
               io2 = (if vi_needHeader io1 then (viz_write io1 (viz_header opts))\<lparr>vi_needHeader := False\<rparr> else io1)
           in (io2, nodeCnt1)))"

text \<open>The root loop of \<open>display_dependences\<close> for \<open>VIZ_CHAR\<close>: for each
  class without parent, in \<open>clist\<close> order, \<open>count_children(crel_ptr,
  NULL)\<close>, the step above, \<open>nodeCnt += display_children(sNodeNum, ...)\<close> and
  \<open>sNodeNum++\<close>.\<close>

fun viz_roots ::
  "nat \<Rightarrow> options \<Rightarrow> (string \<Rightarrow> bool) \<Rightarrow> graph \<Rightarrow> addr list \<Rightarrow> viz_io \<Rightarrow> 64 word \<Rightarrow> nat \<Rightarrow>
     (viz_io \<times> 64 word \<times> nat) option" where
  "viz_roots fuel opts opens g [] io nodeCnt k = Some (io, nodeCnt, k)"
| "viz_roots fuel opts opens g (p # ps) io nodeCnt k =
     (case count_children fuel VIZ_CHAR g p of
        None \<Rightarrow> None
      | Some cc \<Rightarrow>
          (case viz_root_step opts opens g p cc io nodeCnt of
             (io2, nodeCnt1) \<Rightarrow>
               (case display_children_viz fuel (o_importPackage opts) g p True k of
                  None \<Rightarrow> None
                | Some (out, m, k1) \<Rightarrow>
                    viz_roots fuel opts opens g ps (viz_write io2 out) (nodeCnt1 + word_of_nat m) (Suc k1))))"

text \<open>\<open>display_dependences()\<close> with \<open>cset == VIZ_CHAR\<close>: \<open>nodeCnt\<close>
  starts at \<open>(size_t)-1\<close>, and the last file is completed after the loop.\<close>

definition display_dependences_viz ::
  "nat \<Rightarrow> options \<Rightarrow> (string \<Rightarrow> bool) \<Rightarrow> graph \<Rightarrow> viz_io \<Rightarrow> nat \<Rightarrow> (viz_io \<times> nat) option" where
  "display_dependences_viz fuel opts opens g io k =
     map_option (\<lambda>(io', nodeCnt, k'). (viz_finish io', k'))
       (viz_roots fuel opts opens g (roots g) io (- 1) k)"

subsection \<open>Invariants of the stream state\<close>

text \<open>The stream state is well formed when \<open>cout\<close> is redirected only
  into an open, error-free \<open>outStream\<close>, a failed stream has no file open,
  and an open file is the last one listed.\<close>

definition viz_io_wf :: "viz_io \<Rightarrow> bool" where
  "viz_io_wf io \<longleftrightarrow>
     (vi_swapped io \<longrightarrow> vi_open io \<and> \<not> vi_fail io) \<and> (vi_fail io \<longrightarrow> \<not> vi_open io) \<and>
     (vi_open io \<longrightarrow> vi_files io \<noteq> [])"

text \<open>\<open>cout\<close> writes into the open file last listed.\<close>

definition viz_redirected :: "viz_io \<Rightarrow> bool" where
  "viz_redirected io \<longleftrightarrow> vi_swapped io \<and> vi_open io \<and> \<not> vi_fail io \<and> vi_files io \<noteq> []"

text \<open>With \<open>-Z\<close>: the files opened so far are named \<open>ns\<close>; all but the
  last are complete GraphViz graphs, the last has its header.\<close>

definition viz_split_inv :: "options \<Rightarrow> viz_io \<Rightarrow> string list \<Rightarrow> bool" where
  "viz_split_inv opts io ns \<longleftrightarrow>
     viz_redirected io \<and> map fst (vi_files io) = ns \<and>
     (\<forall>(f, s) \<in> set (butlast (vi_files io)). \<exists>body. s = viz_header opts @ body @ ''}'' @ [NL]) \<and>
     (\<exists>body. snd (last (vi_files io)) = viz_header opts @ body)"

subsection \<open>Lemmas\<close>

lemma app_last_Nil_iff [simp]: "app_last s xs = [] \<longleftrightarrow> xs = []"
  by (induction s xs rule: app_last.induct) auto

lemma app_last_snoc [simp]: "app_last s (xs @ [(f, c)]) = xs @ [(f, c @ s)]"
  by (induction s xs rule: app_last.induct) auto

lemma map_fst_app_last [simp]: "map fst (app_last s xs) = map fst xs"
  by (induction s xs rule: app_last.induct) auto

lemma viz_write_fields [simp]:
  "vi_open (viz_write io s) = vi_open io" "vi_fail (viz_write io s) = vi_fail io"
  "vi_swapped (viz_write io s) = vi_swapped io" "vi_needHeader (viz_write io s) = vi_needHeader io"
  "vi_files (viz_write io s) = (if vi_swapped io then app_last s (vi_files io) else vi_files io)"
  "vi_stdout (viz_write io s) = (if vi_swapped io then vi_stdout io else vi_stdout io @ s)"
  by (simp_all add: viz_write_def)

lemma viz_io_wf_write [simp]: "viz_io_wf (viz_write io s) = viz_io_wf io"
  by (simp add: viz_io_wf_def)

lemma viz_io_wf_needHeader [simp]: "viz_io_wf (io\<lparr>vi_needHeader := b\<rparr>) = viz_io_wf io"
  by (simp add: viz_io_wf_def)

lemma viz_finish_wf:
  "viz_io_wf io \<Longrightarrow> viz_io_wf (viz_finish io) \<and> \<not> vi_open (viz_finish io) \<and> \<not> vi_swapped (viz_finish io)"
  by (auto simp: viz_finish_def ofs_close_def viz_io_wf_def)

lemma ofs_open_wf:
  "viz_io_wf io \<Longrightarrow> \<not> vi_open io \<Longrightarrow> \<not> vi_swapped io \<Longrightarrow>
     viz_io_wf (ofs_open opens fn io) \<and> \<not> vi_swapped (ofs_open opens fn io) \<and>
     (\<not> vi_fail (ofs_open opens fn io) \<longrightarrow> vi_open (ofs_open opens fn io))"
  by (auto simp: ofs_open_def viz_io_wf_def)

lemma viz_root_step_wf:
  assumes "viz_io_wf io"
  shows "viz_io_wf (fst (viz_root_step opts opens g p cc io n))"
proof -
  let ?io = "\<lambda>fn. ofs_open opens fn ((viz_finish io)\<lparr>vi_needHeader := True\<rparr>)"
  have "viz_io_wf ((viz_finish io)\<lparr>vi_needHeader := True\<rparr>)"
    "\<not> vi_open ((viz_finish io)\<lparr>vi_needHeader := True\<rparr>)" "\<not> vi_swapped ((viz_finish io)\<lparr>vi_needHeader := True\<rparr>)"
    using viz_finish_wf [OF assms] by (simp_all add: viz_io_wf_def)
  note op1 = ofs_open_wf [OF this]
  have "viz_io_wf (if \<not> vi_fail (?io fn) then (?io fn)\<lparr>vi_swapped := True\<rparr> else ?io fn)" for fn
    using op1 [of opens fn] by (auto simp: viz_io_wf_def)
  then have w: "viz_io_wf (if nx then (if \<not> vi_fail (?io fn) then (?io fn)\<lparr>vi_swapped := True\<rparr> else ?io fn) else io)"
    for nx fn using assms by simp
  have hdr: "viz_io_wf X \<Longrightarrow> viz_io_wf (if b then (viz_write X s)\<lparr>vi_needHeader := False\<rparr> else X)" for X b s
    by simp
  obtain nx n1 where nf: "NextFile opts io n (word_of_nat cc) = (nx, n1)" by fastforce
  show ?thesis
    unfolding viz_root_step_def nf prod.case Let_def fst_conv by (rule hdr [OF w])
qed

lemma viz_roots_wf:
  "viz_io_wf io \<Longrightarrow> viz_roots fuel opts opens g ps io n k = Some (io', n', k') \<Longrightarrow> viz_io_wf io'"
proof (induction ps arbitrary: io n k)
  case (Cons p ps)
  from Cons.prems(2) obtain cc io2 n1 out m k1 where
    "viz_root_step opts opens g p cc io n = (io2, n1)"
    "viz_roots fuel opts opens g ps (viz_write io2 out) (n1 + word_of_nat m) (Suc k1) = Some (io', n', k')"
    by (auto split: option.splits prod.splits)
  moreover have "viz_io_wf io2" using viz_root_step_wf [OF Cons.prems(1)] calculation(1) by (metis fst_conv)
  ultimately show ?case using Cons.IH viz_io_wf_write by metis
qed simp

lemma viz_redirected_write [simp]: "viz_redirected (viz_write io s) = viz_redirected io"
  by (simp add: viz_redirected_def)

lemma viz_redirected_write_stdout [simp]: "viz_redirected io \<Longrightarrow> vi_stdout (viz_write io s) = vi_stdout io"
  by (simp add: viz_redirected_def)

text \<open>Opening the next file after the trailer: on success \<open>cout\<close> is
  redirected into the new file, and nothing reaches the terminal.\<close>

lemma viz_reopen:
  assumes "\<not> vi_open (viz_finish io)" "\<forall>f. opens f"
  shows "viz_redirected (let io_b = ofs_open opens fn ((viz_finish io)\<lparr>vi_needHeader := True\<rparr>)
                         in if \<not> vi_fail io_b then io_b\<lparr>vi_swapped := True\<rparr> else io_b) \<and>
         vi_stdout (let io_b = ofs_open opens fn ((viz_finish io)\<lparr>vi_needHeader := True\<rparr>)
                    in if \<not> vi_fail io_b then io_b\<lparr>vi_swapped := True\<rparr> else io_b) = vi_stdout (viz_finish io)"
  using assms by (simp add: ofs_open_def viz_redirected_def Let_def)

lemma viz_finish_redirected:
  "viz_redirected io \<Longrightarrow> \<not> vi_open (viz_finish io) \<and> vi_stdout (viz_finish io) = vi_stdout io"
  by (simp add: viz_finish_def ofs_close_def viz_redirected_def)

lemma viz_root_step_redirected:
  assumes "\<forall>f. opens f" and r: "viz_redirected io \<or> (io = viz_io0 \<and> n = - 1 \<and> o_outPath opts \<noteq> [])"
  shows "viz_redirected (fst (viz_root_step opts opens g p cc io n)) \<and>
         vi_stdout (fst (viz_root_step opts opens g p cc io n)) =
           (if viz_redirected io then vi_stdout io else ''}'' @ [NL])"
proof -
  obtain nx n1 where nf: "NextFile opts io n (word_of_nat cc) = (nx, n1)" by fastforce
  let ?fn = "viz_file_name opts (my_name (objs g ! p))"
  let ?io1 = "if nx then (let io_b = ofs_open opens ?fn ((viz_finish io)\<lparr>vi_needHeader := True\<rparr>)
                         in if \<not> vi_fail io_b then io_b\<lparr>vi_swapped := True\<rparr> else io_b) else io"
  have first: "\<not> viz_redirected io \<Longrightarrow> nx \<and> \<not> vi_open (viz_finish io) \<and> vi_stdout (viz_finish io) = ''}'' @ [NL]"
    using r nf by (auto simp: NextFile_def viz_finish_def ofs_close_def viz_io0_def viz_write_def viz_redirected_def)
  have "viz_redirected ?io1 \<and> vi_stdout ?io1 = (if viz_redirected io then vi_stdout io else ''}'' @ [NL])"
  proof (cases "viz_redirected io")
    case True
    then show ?thesis using viz_reopen [OF _ assms(1)] viz_finish_redirected [OF True] by simp
  next
    case False
    then show ?thesis using viz_reopen [OF _ assms(1)] first by simp
  qed
  moreover have hdr: "fst (viz_root_step opts opens g p cc io n) =
      (if vi_needHeader ?io1 then (viz_write ?io1 (viz_header opts))\<lparr>vi_needHeader := False\<rparr> else ?io1)"
    unfolding viz_root_step_def nf prod.case Let_def fst_conv ..
  ultimately show ?thesis by (simp add: viz_redirected_def)
qed

lemma viz_roots_redirected:
  "\<forall>f. opens f \<Longrightarrow> viz_redirected io \<Longrightarrow> viz_roots fuel opts opens g ps io n k = Some (io', n', k') \<Longrightarrow>
     viz_redirected io' \<and> vi_stdout io' = vi_stdout io"
proof (induction ps arbitrary: io n k)
  case (Cons p ps)
  from Cons.prems(3) obtain cc io2 n1 out m k1 where
    st: "viz_root_step opts opens g p cc io n = (io2, n1)" and
    rest: "viz_roots fuel opts opens g ps (viz_write io2 out) (n1 + word_of_nat m) (Suc k1) = Some (io', n', k')"
    by (auto split: option.splits prod.splits)
  have "viz_redirected io2 \<and> vi_stdout io2 = vi_stdout io"
    using viz_root_step_redirected [OF Cons.prems(1), of io n opts g p cc] Cons.prems(2) st by simp
  then show ?case using Cons.IH [OF Cons.prems(1) _ rest] by (simp add: viz_redirected_def)
qed simp

lemma app_last_last: "xs \<noteq> [] \<Longrightarrow> app_last s xs = butlast xs @ [(fst (last xs), snd (last xs) @ s)]"
  by (metis app_last_snoc append_butlast_last_id prod.collapse)

lemma map_fst_butlast_last: "xs \<noteq> [] \<Longrightarrow> map fst (butlast xs) @ [fst (last xs)] = map fst xs"
  by (metis append_butlast_last_id list.simps(8,9) map_append)

lemma viz_split_inv_write:
  assumes "viz_split_inv opts io ns" shows "viz_split_inv opts (viz_write io s) ns"
proof -
  have r: "viz_redirected io" "vi_files io \<noteq> []" using assms by (simp_all add: viz_split_inv_def viz_redirected_def)
  then show ?thesis using assms
    by (auto simp: viz_split_inv_def app_last_last viz_redirected_def map_fst_butlast_last)
qed

lemma viz_finish_files:
  "viz_redirected io \<Longrightarrow> vi_files (viz_finish io) = app_last (''}'' @ [NL]) (vi_files io)"
  by (simp add: viz_finish_def ofs_close_def viz_redirected_def)

lemma viz_split_step:
  assumes "o_vizSplit opts" "o_outPath opts \<noteq> []" "\<forall>f. opens f"
    and I: "viz_split_inv opts io ns \<or> (io = viz_io0 \<and> ns = [])"
  shows "viz_split_inv opts (fst (viz_root_step opts opens g p cc io n)) (ns @ [viz_file_name opts (my_name (objs g ! p))])"
proof -
  let ?fn = "viz_file_name opts (my_name (objs g ! p))"
  have nf: "NextFile opts io n (word_of_nat cc) = (True, 0)" using assms(1,2) by (simp add: NextFile_def)
  have no: "\<not> vi_open (viz_finish io)" using I viz_finish_redirected
    by (auto simp: viz_split_inv_def viz_redirected_def viz_finish_def viz_io0_def ofs_close_def viz_write_def)
  have F: "map fst (vi_files (viz_finish io)) = ns \<and>
      (\<forall>(f, s) \<in> set (vi_files (viz_finish io)). \<exists>body. s = viz_header opts @ body @ ''}'' @ [NL])"
  proof (cases "io = viz_io0")
    case True
    then show ?thesis using I by (auto simp: viz_split_inv_def viz_redirected_def viz_io0_def viz_finish_def
        ofs_close_def viz_write_def)
  next
    case False
    then have i: "viz_split_inv opts io ns" using I by simp
    then have r: "viz_redirected io" "vi_files io \<noteq> []" by (simp_all add: viz_split_inv_def viz_redirected_def)
    show ?thesis using i r(2) unfolding viz_finish_files [OF r(1)] app_last_last [OF r(2)]
      by (auto simp: viz_split_inv_def map_fst_butlast_last)
  qed
  have "fst (viz_root_step opts opens g p cc io n) =
      (viz_write ((ofs_open opens ?fn ((viz_finish io)\<lparr>vi_needHeader := True\<rparr>))\<lparr>vi_swapped := True\<rparr>)
         (viz_header opts))\<lparr>vi_needHeader := False\<rparr>"
    using no assms(3) by (simp add: viz_root_step_def nf Let_def ofs_open_def)
  then show ?thesis using no assms(3) F
    by (auto simp: viz_split_inv_def viz_redirected_def ofs_open_def viz_write_def butlast_append)
qed

lemma viz_roots_split:
  "o_vizSplit opts \<Longrightarrow> o_outPath opts \<noteq> [] \<Longrightarrow> \<forall>f. opens f \<Longrightarrow>
   viz_split_inv opts io ns \<or> (io = viz_io0 \<and> ns = []) \<Longrightarrow>
   viz_roots fuel opts opens g ps io n k = Some (io', n', k') \<Longrightarrow>
   ps \<noteq> [] \<or> viz_split_inv opts io ns \<Longrightarrow>
   viz_split_inv opts io' (ns @ map (\<lambda>p. viz_file_name opts (my_name (objs g ! p))) ps)"
proof (induction ps arbitrary: io n k ns)
  case (Cons p ps)
  from Cons.prems(5) obtain cc io2 n1 out m k1 where
    st: "viz_root_step opts opens g p cc io n = (io2, n1)" and
    rest: "viz_roots fuel opts opens g ps (viz_write io2 out) (n1 + word_of_nat m) (Suc k1) = Some (io', n', k')"
    by (auto split: option.splits prod.splits)
  have "viz_split_inv opts io2 (ns @ [viz_file_name opts (my_name (objs g ! p))])"
    using viz_split_step [OF Cons.prems(1-4), of g p cc n] st by simp
  then have "viz_split_inv opts (viz_write io2 out) (ns @ [viz_file_name opts (my_name (objs g ! p))])"
    by (rule viz_split_inv_write)
  from Cons.IH [OF Cons.prems(1-3) disjI1 [OF this] rest disjI2 [OF this]] show ?case by simp
qed simp

text \<open>Recursion depth: on a ranked registry, one more than the largest rank
  is enough for \<open>count_children\<close>, \<open>display_children\<close> and the root
  loop.\<close>

lemma count_list_fuel:
  assumes "graph_wf g"
    and rk: "\<forall>q < length (objs g). \<forall>c \<in> set (my_children (objs g ! q)). rank c < rank q"
  shows "\<forall>c \<in> set xs. c < length (objs g) \<and> rank c < r \<Longrightarrow> \<exists>m. count_list (Suc r) cs g xs = Some m"
proof (induction r arbitrary: xs)
  case 0
  then show ?case by (cases xs) auto
next
  case (Suc r)
  then show ?case
  proof (induction xs)
    case Nil
    then show ?case by simp
  next
    case (Cons c rest)
    have c: "c < length (objs g)" "rank c < Suc r" using Cons.prems by auto
    have "\<forall>d \<in> set (my_children (objs g ! c)). d < length (objs g) \<and> rank d < r"
      using c rk children_valid [OF assms(1) c(1)] by fastforce
    then obtain a where "count_list (Suc r) cs g (my_children (objs g ! c)) = Some a"
      using Suc.IH by blast
    moreover obtain b where "count_list (Suc (Suc r)) cs g rest = Some b"
      using Cons.IH Cons.prems by auto
    ultimately show ?case by simp
  qed
qed

lemma display_children_viz_fuel:
  assumes "graph_wf g"
    and rk: "\<forall>q < length (objs g). \<forall>c \<in> set (my_children (objs g ! q)). rank c < rank q"
  shows "p < length (objs g) \<Longrightarrow> rank p \<le> r \<Longrightarrow> \<exists>res. display_children_viz (Suc r) imp g p b k = Some res"
proof (induction r arbitrary: p b k)
  case 0
  then have "my_children (objs g ! p) = []" using rk by fastforce
  then show ?case by (simp split: prod.split)
next
  case (Suc r)
  have loop: "\<forall>c \<in> set xs. c < length (objs g) \<and> rank c \<le> r \<Longrightarrow>
      \<exists>res. viz_loop (Suc r) imp g p b xs pm cm k' = Some res" for xs pm cm k'
  proof (induction xs arbitrary: pm cm k')
    case (Cons c rest)
    obtain sub m k1 where "display_children_viz (Suc r) imp g c False (Suc k') = Some (sub, m, k1)"
      using Suc.IH Cons.prems by (metis list.set_intros(1) prod_cases3)
    moreover have "\<forall>c \<in> set rest. c < length (objs g) \<and> rank c \<le> r" using Cons.prems by simp
    then obtain res2 where "viz_loop (Suc r) imp g p b rest [] (snd (viz_edge g p b pm cm c)) k1 = Some res2"
      using Cons.IH by blast
    ultimately show ?case by (cases "viz_edge g p b pm cm c"; cases res2) (auto simp del: display_children_viz.simps)
  qed simp
  have "\<forall>c \<in> set (my_children (objs g ! p)). c < length (objs g) \<and> rank c \<le> r"
    using Suc.prems rk children_valid [OF assms(1) Suc.prems(1)] by fastforce
  then obtain res where "viz_loop (Suc r) imp g p b (my_children (objs g ! p))
      (if b then '' [fillcolor=cyan1]'' else '' [fillcolor=cyan4]'') [] k = Some res"
    using loop by blast
  then show ?case by (cases res) (auto split: prod.split)
qed

lemma viz_roots_fuel:
  assumes "graph_wf g"
    and rk: "\<forall>q < length (objs g). \<forall>c \<in> set (my_children (objs g ! q)). rank c < rank q"
    and bound: "\<forall>q < length (objs g). rank q \<le> R"
  shows "\<forall>p \<in> set ps. p < length (objs g) \<Longrightarrow> \<exists>res. viz_roots (Suc R) opts opens g ps io n k = Some res"
proof (induction ps arbitrary: io n k)
  case (Cons p ps)
  have p: "p < length (objs g)" using Cons.prems by simp
  have "\<forall>c \<in> set (my_children (objs g ! p)). c < length (objs g) \<and> rank c < R"
    using p rk bound children_valid [OF assms(1) p] by (meson order_less_le_trans)
  then obtain cc where "count_children (Suc R) VIZ_CHAR g p = Some cc"
    using count_list_fuel [OF assms(1) rk] by (fastforce simp: count_children_def)
  moreover obtain out m k1 where "display_children_viz (Suc R) (o_importPackage opts) g p True k = Some (out, m, k1)"
    using display_children_viz_fuel [OF assms(1) rk p] bound p by (metis prod_cases3)
  ultimately show ?case using Cons.IH Cons.prems by (auto split: prod.split)
qed simp

subsection \<open>Properties\<close>

text \<open>C31: on a well-formed registry whose children relation is ranked, the
  GraphViz output of \<open>display_dependences\<close> ends with one more recursion
  level than the largest rank, keeps the stream state well formed, and leaves
  no file open and \<open>cout\<close> restored to the terminal.\<close>

theorem viz_output_closed:
  assumes "graph_wf g"
    and "\<forall>q < length (objs g). \<forall>c \<in> set (my_children (objs g ! q)). rank c < rank q"
    and "\<forall>q < length (objs g). rank q \<le> R"
    and "viz_io_wf io"
  shows "\<exists>io' k'. display_dependences_viz (Suc R) opts opens g io k = Some (io', k') \<and>
           viz_io_wf io' \<and> \<not> vi_open io' \<and> \<not> vi_swapped io'"
proof -
  obtain io1 n1 k' where rs: "viz_roots (Suc R) opts opens g (roots g) io (- 1) k = Some (io1, n1, k')"
    using viz_roots_fuel [OF assms(1-3), of "roots g"] roots_valid [OF assms(1)] by (metis prod_cases3)
  then have "display_dependences_viz (Suc R) opts opens g io k = Some (viz_finish io1, k')"
    by (simp add: display_dependences_viz_def)
  moreover have "viz_io_wf io1" using viz_roots_wf [OF assms(4) rs] .
  ultimately show ?thesis using viz_finish_wf by blast
qed

text \<open>C32: with \<open>-O\<close>, when every file opens, the only text written to the
  terminal is a stray \<open>}\<close> line: the first \<open>NextFile\<close> (\<open>nodeCnt\<close> is
  \<open>(size_t)-1\<close>) runs the trailer block on the default-constructed
  \<open>outStream\<close>, whose \<open>good()\<close> is true although no file is open, so
  \<open>outVizTrailer\<close> writes to the terminal before the first file is opened.\<close>

theorem viz_stray_trailer:
  assumes "o_outPath opts \<noteq> []" and "\<forall>f. opens f"
    and "display_dependences_viz fuel opts opens g viz_io0 k = Some (io, k')"
  shows "vi_stdout io = ''}'' @ [NL]"
proof (cases "roots g")
  case Nil
  then show ?thesis using assms(3)
    by (auto simp: display_dependences_viz_def viz_finish_def viz_io0_def viz_write_def ofs_close_def)
next
  case (Cons p ps)
  from assms(3) Cons obtain cc io2 n1 out m k1 io' n' where
    st: "viz_root_step opts opens g p cc viz_io0 (- 1) = (io2, n1)" and
    rest: "viz_roots fuel opts opens g ps (viz_write io2 out) (n1 + word_of_nat m) (Suc k1) = Some (io', n', k')"
    and io: "io = viz_finish io'"
    by (auto simp: display_dependences_viz_def split: option.splits prod.splits)
  have r0: "\<not> viz_redirected viz_io0" by (simp add: viz_redirected_def viz_io0_def)
  have "viz_redirected io2 \<and> vi_stdout io2 = ''}'' @ [NL]"
    using viz_root_step_redirected [OF assms(2), of viz_io0 "- 1" opts g p cc] assms(1) st r0 by simp
  then have "viz_redirected io' \<and> vi_stdout io' = ''}'' @ [NL]"
    using viz_roots_redirected [OF assms(2) _ rest] by (simp add: viz_redirected_def)
  then show ?thesis using io viz_finish_redirected by simp
qed

text \<open>C33: with \<open>-Z\<close> and \<open>-O\<close>, when every file opens, the output is one
  file per root class, in \<open>clist\<close> order, named
  \<open>outPath + name + ".gv"\<close> (with \<open>[<,>?]\<close> replaced), and each file is a
  complete graph: the header, the root's tree and the closing \<open>}\<close>.\<close>

theorem viz_split_one_file_per_root:
  assumes "o_vizSplit opts" and "o_outPath opts \<noteq> []" and "\<forall>f. opens f"
    and "display_dependences_viz fuel opts opens g viz_io0 k = Some (io, k')"
  shows "map fst (vi_files io) = map (\<lambda>p. viz_file_name opts (my_name (objs g ! p))) (roots g) \<and>
         (\<forall>(f, s) \<in> set (vi_files io). \<exists>body. s = viz_header opts @ body @ ''}'' @ [NL])"
proof (cases "roots g")
  case Nil
  then show ?thesis using assms(4)
    by (auto simp: display_dependences_viz_def viz_finish_def viz_io0_def viz_write_def ofs_close_def)
next
  case (Cons p ps)
  from assms(4) obtain io' n' where
    rs: "viz_roots fuel opts opens g (roots g) viz_io0 (- 1) k = Some (io', n', k')" and io: "io = viz_finish io'"
    by (auto simp: display_dependences_viz_def)
  have i: "viz_split_inv opts io' (map (\<lambda>p. viz_file_name opts (my_name (objs g ! p))) (roots g))"
    using viz_roots_split [where ns = "[]", OF assms(1-3) _ rs] Cons by simp
  then have r: "viz_redirected io'" "vi_files io' \<noteq> []" by (simp_all add: viz_split_inv_def viz_redirected_def)
  show ?thesis using i r(2) unfolding io viz_finish_files [OF r(1)] app_last_last [OF r(2)]
    by (auto simp: viz_split_inv_def map_fst_butlast_last)
qed


subsection \<open>Witnesses\<close>

lemma viz_output_closed_witness:
  "\<exists>io' k'. display_dependences_viz (Suc 1) default_options (\<lambda>f. True) (fold graph_step ab_ops empty_graph)
       viz_io0 1 = Some (io', k') \<and> viz_io_wf io' \<and> \<not> vi_open io' \<and> \<not> vi_swapped io'"
proof -
  have h1: "\<forall>q < length (objs (fold graph_step ab_ops empty_graph)).
      \<forall>c \<in> set (my_children (objs (fold graph_step ab_ops empty_graph) ! q)).
        (if c = 1 then 1 else (0::nat)) < (if q = 1 then 1 else 0)"
    by code_simp
  have h2: "\<forall>q < length (objs (fold graph_step ab_ops empty_graph)). (if q = 1 then 1 else (0::nat)) \<le> 1"
    by simp
  have h3: "viz_io_wf viz_io0" by (simp add: viz_io_wf_def viz_io0_def)
  show ?thesis by (rule viz_output_closed [OF ab_wf h1 h2 h3])
qed

lemma viz_stray_trailer_witness:
  "\<exists>io k'. display_dependences_viz 3 (default_options\<lparr>o_outPath := ''out/''\<rparr>) (\<lambda>f. True)
       (fold graph_step ab_ops empty_graph) viz_io0 1 = Some (io, k') \<and> vi_stdout io = ''}'' @ [NL]"
proof -
  have "display_dependences_viz 3 (default_options\<lparr>o_outPath := ''out/''\<rparr>) (\<lambda>f. True)
       (fold graph_step ab_ops empty_graph) viz_io0 1 \<noteq> None"
    by code_simp
  then obtain io k' where r: "display_dependences_viz 3 (default_options\<lparr>o_outPath := ''out/''\<rparr>) (\<lambda>f. True)
       (fold graph_step ab_ops empty_graph) viz_io0 1 = Some (io, k')" by auto
  have "vi_stdout io = ''}'' @ [NL]" by (rule viz_stray_trailer [OF _ _ r]) simp_all
  then show ?thesis using r by blast
qed

lemma viz_split_one_file_per_root_witness:
  "\<exists>io k'. display_dependences_viz 3 (default_options\<lparr>o_vizSplit := True, o_outPath := ''out/''\<rparr>) (\<lambda>f. True)
       (snd (AddClass ''B'' ''public '' ''B.java'' (snd (AddClass ''A'' ''public '' ''A.java'' empty_graph))))
       viz_io0 1 = Some (io, k') \<and>
     map fst (vi_files io) = [''out/A.gv'', ''out/B.gv'']"
proof -
  let ?g = "snd (AddClass ''B'' ''public '' ''B.java'' (snd (AddClass ''A'' ''public '' ''A.java'' empty_graph)))"
  let ?o = "default_options\<lparr>o_vizSplit := True, o_outPath := ''out/''\<rparr>"
  have "display_dependences_viz 3 ?o (\<lambda>f. True) ?g viz_io0 1 \<noteq> None" by code_simp
  then obtain io k' where r: "display_dependences_viz 3 ?o (\<lambda>f. True) ?g viz_io0 1 = Some (io, k')" by auto
  have n: "map (\<lambda>p. viz_file_name ?o (my_name (objs ?g ! p))) (roots ?g) = [''out/A.gv'', ''out/B.gv'']"
    by code_simp
  have "map fst (vi_files io) = map (\<lambda>p. viz_file_name ?o (my_name (objs ?g ! p))) (roots ?g)"
    using viz_split_one_file_per_root [OF _ _ _ r] by simp
  then show ?thesis using r n by simp
qed

end
