(* ===== verification/Program.thy ===== *)
theory Program
  imports Viz
begin

text \<open>
  \<open>main\<close> of javatree.cpp as a whole: the argument loop (\<open>run_args\<close>)
  from the initial switches and an empty registry and table, then the output
  branch chosen by the final switches.  The fixed HTML text that \<open>main\<close>
  writes around the \<open>-T\<close> table and the \<open>-j\<close> script (page head, style
  sheet, script tags) is not modelled; those results hold the part the
  components produce.  The usage text for a call without arguments goes to
  \<open>cerr\<close>.
\<close>

datatype main_out =
    Usage
  | VizOut viz_io
  | TableOut string
  | JsOut string
  | TextOut string

text \<open>The output branches of \<open>main\<close>, in the order the code tests them:
  \<open>VIZ_CHAR\<close>, then \<open>-T\<close>, then \<open>JAVA_CHAR\<close>, then the text listing.
  \<open>now\<close> is the time stamp \<open>outputHtmlTableList\<close> prints.\<close>

definition main_output :: "nat \<Rightarrow> string \<Rightarrow> (string \<Rightarrow> bool) \<Rightarrow> options \<Rightarrow> run_state \<Rightarrow> main_out option" where
  "main_output fuel now opens opts st =
     (if o_cset opts = VIZ_CHAR then
        map_option (\<lambda>(io, k). VizOut io) (display_dependences_viz fuel opts opens (rs_graph st) viz_io0 1)
      else if o_tabularList opts then Some (TableOut (outputHtmlTableList now (rs_table st)))
      else if o_cset opts = JAVA_CHAR then
        map_option (\<lambda>(out, k). JsOut out) (display_dependences_text fuel JAVA_CHAR (rs_graph st) 1)
      else map_option TextOut (text_output fuel opts st))"

text \<open>\<open>main(argc, argv)\<close> with \<open>args\<close> the arguments after the program
  name.\<close>

definition main :: "nat \<Rightarrow> string \<Rightarrow> (string \<Rightarrow> string \<Rightarrow> bool) \<Rightarrow> (string \<Rightarrow> fs_entry list) \<Rightarrow>
    (string \<Rightarrow> bool) \<Rightarrow> string list \<Rightarrow> main_out option" where
  "main fuel now rx fs opens args =
     (if args = [] then Some Usage
      else
        (case run_args default_options rx fs args \<lparr>rs_graph = empty_graph, rs_table = []\<rparr> of
           None \<Rightarrow> None
         | Some (opts, st) \<Rightarrow> main_output fuel now opens opts st))"

subsection \<open>Lemmas\<close>

text \<open>The output branch depends only on the final switches: under
  \<open>-z\<close> the \<open>-T\<close> table and the text listing are never written.\<close>

lemma main_output_viz_first:
  "o_cset opts = VIZ_CHAR \<Longrightarrow> main_output fuel now opens opts st = Some r \<Longrightarrow> \<exists>io. r = VizOut io"
  by (auto simp: main_output_def)

lemma main_no_arguments: "main fuel now rx fs opens [] = Some Usage"
  by (simp add: main_def)

text \<open>Example: the whole program on a directory src with A.java
  (\<open>public class A extends B {}\<close>) and B.java (\<open>public class B {}\<close>):
  with \<open>-z\<close> the GraphViz graph of B above A goes to the terminal,
  closed by the trailer of the final block.\<close>

lemma main_viz_example:
  "main 5 ''now'' (\<lambda>p s. False)
     (\<lambda>d. [FsFile ''src/A.java'' (Some (''public class A extends B {}'' @ [NL])),
           FsFile ''src/B.java'' (Some (''public class B {}'' @ [NL]))]) (\<lambda>f. True) [''-z'', ''src''] =
   Some (VizOut \<lparr>vi_stdout = viz_header (default_options\<lparr>o_cset := VIZ_CHAR, o_graphName := ''src''\<rparr>) @
                   [DQ] @ ''B'' @ [DQ] @ ''  [fillcolor=cyan1]'' @ [NL] @
                   [DQ] @ ''B'' @ [DQ] @ '' -> '' @ [DQ] @ ''A'' @ [DQ] @ [NL] @
                   [DQ] @ ''A'' @ [DQ] @ [NL] @ ''}'' @ [NL],
                 vi_files = [], vi_open = False, vi_fail = True, vi_swapped = False, vi_needHeader = False\<rparr>)"
  by code_simp


lemma main_text_example:
  "main 5 ''now'' (\<lambda>p s. False)
     (\<lambda>d. [FsFile ''src/A.java'' (Some (''public class A extends B {}'' @ [NL])),
           FsFile ''src/B.java'' (Some (''public class B {}'' @ [NL]))]) (\<lambda>f. True) [''-x'', ''src''] =
   Some (TextOut (tbl doc_classes TEXT_CHAR @ fmt_field 14 ''src/B.java'' @ '':  B'' @ [NL] @
                  fmt_field 14 ''src/A.java'' @ '':    - A'' @ [NL]))"
  by code_simp

text \<open>Example: with \<open>-T -z\<close> the scan fills the table, not the registry,
  and the \<open>VIZ_CHAR\<close> branch wins: the output is the trailer alone.\<close>

lemma main_table_and_viz:
  "main 5 ''now'' (\<lambda>p s. False)
     (\<lambda>d. [FsFile ''src/B.java'' (Some (''public class B {}'' @ [NL]))]) (\<lambda>f. True) [''-T'', ''-z'', ''src''] =
   Some (VizOut \<lparr>vi_stdout = ''}'' @ [NL], vi_files = [], vi_open = False, vi_fail = True, vi_swapped = False,
                 vi_needHeader = True\<rparr>)"
  by code_simp

end
