(* ===== verification/Spec2Isabelle.thy ===== *)
theory Spec2Isabelle
  imports Scrubber Tokenizer Graph Extractor Renderer Tabular ImportScan Driver Viz Program
begin

text \<open>
  \<^bold>\<open>A verification model of JavaTree (landenlabs/javatree).\<close>

  JavaTree scans Java sources and prints the class hierarchy.  Its parts, as
  src/javatree/ writes them, and how they call each other:
  \<^item> the line scrubber \<open>JavaReader::getJavaline\<close> (javeReader.cpp,
    javaReader.h) removes comments and quoted literals line by line, carrying
    an open block comment from one line to the next;
  \<^item> the per-file scanners \<open>FindClassDefsInFile\<close> and
    \<open>TabularListOfInFile\<close> (javatree.cpp) read a file through the scrubber,
    match class declarations with \<open>pubClass_p\<close>/\<open>allClass_p\<close>, normalise and
    split them with the generic-aware tokenizer \<open>FindSplit\<close>/\<open>Split\<close>
    (javatree.cpp, split.h), track the brace depth and the stack of enclosing
    class names, and either feed the registry or fill the table of \<open>-T\<close>;
  \<^item> the registry: \<open>ClassList clist\<close>, a \<open>std::map\<close> from name to
    \<open>ClassRelations\<close> objects (class_rel.h), whose three edge chains of
    \<open>ClassLinkage\<close> cells (class_rel.cpp) hold parents, children and
    interfaces; \<open>AddClass\<close> and \<open>add_parent\<close> (javatree.cpp) update it;
  \<^item> the printers \<open>display_dependences\<close>, \<open>display_children\<close>,
    \<open>count_children\<close>, \<open>display_names\<close> and \<open>outputHtmlTableList\<close> read
    the registry or the table and write to \<open>stdout\<close>.

  \<^bold>\<open>Theories and what they model.\<close>
  \<^item> \<open>Prelude\<close>: the std::string operations the code calls (\<open>find\<close>,
    \<open>find_first_of\<close>, \<open>erase\<close>, \<open>substr\<close>, \<open>std::getline\<close>), the exceptions
    they throw as values of \<open>jt_error\<close> (\<open>OutOfRange\<close>, \<open>LengthError\<close>),
    and the \<open>int\<close> to \<open>size_t\<close> conversion written out modulo \<open>2^64\<close>.
  \<^item> \<open>Scrubber\<close>: \<open>getJavaline\<close> as a function from the reader's members
    (\<open>java_reader\<close>) and the unread input to the new members, the scrubbed
    line, \<open>good()\<close> and the rest of the input (\<open>line_markers\<close> for
    \<open>findAll\<close> and the sort, \<open>scan_step\<close>/\<open>scan_items\<close> for the marker loop,
    \<open>finish_line\<close>/\<open>erase_spans\<close> for the erasures).  Lemmas: the marker
    list is one left-to-right scan, a good line is never out of range, comments
    and literals are removed, \<open>/*/\<close> opens and closes at once, and the read at
    end of input replays the last spans and throws (C1-C7).
  \<^item> \<open>Tokenizer\<close>: \<open>FindSplit\<close>, \<open>Split\<close> and the two \<open>regex_replace\<close>
    passes; \<open>FindSplit\<close> equals a search for the first top-level delimiter,
    \<open>Split\<close> without generics is a plain split, and the normalisation only
    removes blanks next to \<open><\<close>, \<open>>\<close>, \<open>,\<close> (C8-C10).
  \<^item> \<open>Linkage\<close>: the \<open>ClassLinkage\<close> cells in a heap of cells with
    \<open>add_linkage_to\<close>, \<open>find_relation\<close> and \<open>release_links\<close> as
    \<open>partial_function (option)\<close> walks; the inductive \<open>chain\<close> relates a
    cell chain to the list it holds, and each walk is shown to end and to
    implement the list operation (C11-C13); the unused
    \<open>ClassRelations::remove_*\<close> share the loop \<open>remove_walk\<close>, which
    deletes the head link embedded in the object on every call.  \<open>Release_clist\<close>
    (\<open>release_clist\<close>) ends and frees exactly the cells the registered
    objects own when these are disjoint well-formed chains.
  \<^item> \<open>Graph\<close>: the registry as a sorted association list plus an object
    store, \<open>AddClass\<close>, \<open>add_parent\<close>, the \<open>implements\<close> allocation, the
    roots, an inductive \<open>reachable\<close> over the operations, and the invariant
    \<open>graph_wf\<close> (registry sorted and consistent, edges duplicate-free and
    symmetric) preserved by every step (C14-C19).
  \<^item> \<open>ClassPattern\<close> and \<open>BraceDepth\<close>: the class regexes as a
    deterministic scan (C22), and the brace loop with \<open>std::vector::resize\<close>
    on an \<open>int\<close> depth, whose stack invariant and \<open>length_error\<close> on a
    negative depth are C20 and C21.
  \<^item> \<open>Extractor\<close>: \<open>FindClassDefsInFile\<close> over the content of one file
    (\<open>process_line\<close> for the loop body, \<open>record_class\<close> for a public class,
    \<open>read_more\<close> for continuation lines, \<open>parent_tokens\<close> for the
    extends/implements state machine, \<open>scan_file\<close> for the loop), exceptions
    caught into the result \<open>(False, registry)\<close>.  Lemmas: continuation lines
    never reach the graph, non-public classes are skipped, and every registry
    the scanner produces is \<open>Graph.reachable\<close> (C23-C25).
  \<^item> \<open>Renderer\<close>: the class tree, the JavaScript tree and the counters;
    the listing ends on a ranked (acyclic) registry and never ends below a
    cycle, the JavaScript nodes are numbered consistently, and
    \<open>count_children\<close> agrees with the printed nodes (C26-C29).
  \<^item> \<open>Tabular\<close>: \<open>TabularListOfInFile\<close>, its package pattern and the
    HTML table; the scanner is shown to run in lock step with
    \<open>FindClassDefsInFile\<close> (C35, C36).
  \<^item> \<open>ImportScan\<close>: \<open>FindImportPackageInFile\<close> (option \<open>-I\<close>),
    whose null \<open>file_ptr\<close> is shown never to be dereferenced (C39) and which
    drops every import outside \<open>com.wsi.\<close> (C40).
  \<^item> \<open>Driver\<close>: \<open>main\<close> and its helpers: the switch globals as the
    record \<open>options\<close>, \<open>parse_switch\<close> for one \<open>-x\<close>/\<open>+x\<close> argument
    (with \<open>strtol\<close> and the 32-bit \<open>int\<close> cast of \<open>-N\<close>), \<open>MakeTitle\<close>,
    \<open>FileMatches\<close> with \<open>size_t\<close> arithmetic on \<open>64 word\<close>, the directory
    walk \<open>FindClassDefinitions\<close> (\<open>find_defs\<close>) over a tree of
    \<open>fs_entry\<close> values that stands for \<open>Directory_files\<close>, the argument
    loop (\<open>run_args\<close>) and the plain-text output branch
    (\<open>text_output\<close>).  C37: a path without a slash is never ignored, since
    \<open>npos + 1\<close> wraps to 0; the walk keeps the registry reachable and counts
    at most the files it visits.
  \<^item> \<open>Viz\<close>: the GraphViz output of \<open>-z\<close>: the \<open>VIZ_CHAR\<close>
    branches of \<open>display_children\<close> (\<open>display_children_viz\<close> and its loop
    \<open>viz_loop\<close>), \<open>NextFile\<close> on \<open>64 word\<close> counters, and the
    output-file switching of \<open>display_dependences\<close> (\<open>viz_roots\<close>,
    \<open>display_dependences_viz\<close>) over an explicit stream state
    \<open>viz_io\<close>: terminal text, files opened with their contents, the open
    flag and failbit of \<open>outStream\<close>, the \<open>SwapStream\<close> redirection of
    \<open>cout\<close> and \<open>needHeader\<close>.  The output ends and leaves the streams
    well formed and closed on ranked registries (C31); with \<open>-O\<close> a stray
    \<open>}\<close> reaches the terminal (C32); with \<open>-Z\<close> there is one complete
    file per root (C33); a red marker leaks to later siblings (C38).
  \<^item> \<open>Program\<close>: \<open>main\<close> as a whole: the argument loop from the
    initial switches, then the output branch chosen by the final switches
    (\<open>VIZ_CHAR\<close> before \<open>-T\<close> before \<open>JAVA_CHAR\<close> before the text
    listing), with two end-to-end runs on a directory.
  \<^item> This theory: end-to-end runs of the whole pipeline on concrete files
    (C30, C34, and examples): the two-file scenario of the specification,
    the failures at the end of input and on a stray brace, the file name lost
    to a forward reference, and cyclic sources whose listing never ends.

  \<^bold>\<open>Bounds and fuel.\<close>  Column indices are cast to \<open>int\<close> in the
  source; the theorems about a line assume it is shorter than \<open>2^31\<close>
  characters, where the casts are exact.  The brace depth is an \<open>int\<close>;
  the brace theorems assume it stays within \<open>-2^31 .. 2^31\<close>.
  \<open>std::vector::max_size()\<close> is \<open>(2^63 - 1) div 32\<close> (libstdc++, 64-bit).
  The printers' recursion depth is a fuel argument: C26 shows that one more
  than the largest rank of a ranked registry is enough (C31 for the GraphViz
  output), and C27 that no fuel is enough below a cycle, which in the program
  is unbounded recursion.  \<open>sNodeNum\<close> is a natural number (the program's
  \<open>int\<close> would need \<open>2^31\<close> nodes to overflow); \<open>nodeCnt\<close> of the
  GraphViz loop and the arguments of \<open>NextFile\<close> are \<open>size_t\<close> words.  The
  scanner loops terminate by the length of the unread input, so no fuel is
  needed there; the linkage walks are partial functions shown to return on
  well-formed chains.

  \<^bold>\<open>Not modelled.\<close>  The file system itself: \<open>Directory_files\<close>
  (directory.h, not in the repository) is replaced by a tree of entries with
  the content of each file, \<open>None\<close> when it cannot be opened, and
  \<open>std::regex_match\<close> with a user pattern of \<open>-V\<close> is a parameter of the
  walk; \<open>SwapStream\<close> (SwapStream.h, not in the repository), whose
  \<open>swap\<close>/\<open>restore\<close> are taken to redirect \<open>cout\<close> into
  \<open>outStream\<close> and back, and the \<open>std::ofstream\<close> flags as the C++
  standard describes them (a default-constructed stream is \<open>good()\<close>,
  \<open>close()\<close> without a file sets the failbit, a successful \<open>open\<close>
  clears it); the fixed HTML text of the
  \<open>-T\<close> and \<open>-j\<close> pages and \<open>Release_clist\<close> in \<open>main\<close>;
  and the legacy
  tool classneeds.cpp, which the specification places out of scope.
\<close>

section \<open>Properties across the components\<close>

text \<open>The scenarios below run the whole pipeline: \<open>FindClassDefsInFile\<close>
  (scrubber, class pattern, tokenizer, brace loop, registry) on the content of
  each file in turn, then \<open>display_dependences\<close> on the resulting registry.
  They are evaluated by the code equations of the model.\<close>


text \<open>Example: a file whose last line holds a quoted literal makes
  \<open>FindClassDefsInFile\<close> report a parsing error (it returns false), although
  every line was scanned and the class was recorded: the read at the end of the
  input replays the spans of the last line on the unchanged line and throws
  \<open>std::out_of_range\<close>.\<close>

lemma literal_last_line_fails:
  "FindClassDefsInFile \<lparr>allClasses = False, cset_java = False\<rparr> ''T.java''
     (Some (''public class A {'' @ [NL] @ ''  String s = '' @ [DQ] @ ''x'' @ [DQ] @ '';'' @ [NL] @ ''}'' @ [NL] @
            ''  char c = '' @ [SQ] @ ''y'' @ [SQ] @ '';'' @ [NL])) empty_graph =
   (False, \<lparr>clist = [(''A'', 0)], objs = [new_class_rel ''A'' ''public '' ''T.java'']\<rparr>)"
  by code_simp

text \<open>Example: a stray closing brace before the first class of a file is not
  clamped: the depth stays negative, the next opening brace throws
  \<open>std::length_error\<close> from \<open>classNames.resize\<close>, and the file is reported as a
  parsing error after its class was recorded.\<close>

lemma stray_brace_fails_file:
  "FindClassDefsInFile \<lparr>allClasses = False, cset_java = False\<rparr> ''T.java''
     (Some (''}'' @ [NL] @ ''public class A {'' @ [NL] @ ''}'' @ [NL])) empty_graph =
   (False, \<lparr>clist = [(''A'', 0)], objs = [new_class_rel ''A'' ''public '' ''T.java'']\<rparr>)"
  by code_simp

text \<open>Example: a forward reference overwrites the file of a class already
  defined: when B.java is scanned before A.java, \<open>add_parent\<close> for
  \<open>A extends B\<close> calls \<open>AddClass(B, "", "_no_file_")\<close>, which replaces B's
  file \<open>B.java\<close>.\<close>

lemma forward_reference_clobbers_file:
  "my_file (objs (snd (FindClassDefsInFile \<lparr>allClasses = False, cset_java = False\<rparr> ''A.java''
     (Some (''public class A extends B {}'' @ [NL]))
     (snd (FindClassDefsInFile \<lparr>allClasses = False, cset_java = False\<rparr> ''B.java''
        (Some (''public class B {}'' @ [NL])) empty_graph)))) ! 0) = ''_no_file_''"
  by code_simp


end
